theory Spec2Isabelle
  imports Complex_Main "HOL-Library.Multiset"
begin

section \<open>Values and errors\<close>

text \<open>
  Python floats are modelled as exact reals, with the one non-finite value the code
  produces on purpose, \<open>float("nan")\<close>, as a constructor of its own. Every exception the
  code (or a library call it makes) can raise is a value of \<open>error\<close>; a function that can
  raise returns \<open>error + 'a\<close>.
\<close>

datatype error = ValueError | ZeroDivisionError | IndexError | StatisticsError | AttributeError

datatype pyfloat = Fin real | NaN

section \<open>Helper stats\<close>

text \<open>\<open>statistics.mean\<close>: raises on an empty sample.\<close>

definition stats_mean :: "real list \<Rightarrow> error + real" where
  "stats_mean xs = (if xs = [] then Inl StatisticsError else Inr (sum_list xs / real (length xs)))"

definition safe_mean :: "real list \<Rightarrow> error + pyfloat" where
  "safe_mean xs =
     (if xs \<noteq> [] then (case stats_mean xs of Inl e \<Rightarrow> Inl e | Inr m \<Rightarrow> Inr (Fin m))
      else Inr NaN)"

text \<open>\<open>int(k)\<close> on a float truncates towards zero.\<close>

definition py_int :: "real \<Rightarrow> int" where
  "py_int k = (if 0 \<le> k then \<lfloor>k\<rfloor> else \<lceil>k\<rceil>)"

text \<open>List subscription: a negative index counts from the end, anything else out of
  range raises.\<close>

definition subscript :: "'a list \<Rightarrow> int \<Rightarrow> error + 'a" where
  "subscript xs i =
     (if 0 \<le> i \<and> i < int (length xs) then Inr (xs ! nat i)
      else if i < 0 \<and> - int (length xs) \<le> i then Inr (xs ! nat (int (length xs) + i))
      else Inl IndexError)"

definition percentile :: "real list \<Rightarrow> real \<Rightarrow> error + pyfloat" where
  "percentile xs p =
     (if xs = [] then Inr NaN
      else
        let xs_sorted = sort xs;
            k = real (length xs_sorted - 1) * (p / 100);
            f = py_int k;
            c = min (f + 1) (int (length xs_sorted) - 1)
        in if f = c then (case subscript xs_sorted f of Inl e \<Rightarrow> Inl e | Inr a \<Rightarrow> Inr (Fin a))
           else (case subscript xs_sorted f of Inl e \<Rightarrow> Inl e
                 | Inr a \<Rightarrow> (case subscript xs_sorted c of Inl e \<Rightarrow> Inl e
                     | Inr b \<Rightarrow> Inr (Fin (a + (k - real_of_int f) * (b - a))))))"

section \<open>Configuration and random sampling\<close>

text \<open>
  The \<open>params\<close> dictionary and its \<open>service_time\<close> table of (min, mode, max) triples.
  The keys \<open>verbose\<close> and \<open>max_debug_patients\<close> only steer \<open>log_event\<close>, which prints to
  the console and touches neither the log nor the random stream; console output is not
  modelled.
\<close>

record service_times =
  registration :: "real \<times> real \<times> real"
  sampling :: "real \<times> real \<times> real"
  test_fast :: "real \<times> real \<times> real"
  test_slow :: "real \<times> real \<times> real"
  verification :: "real \<times> real \<times> real"

record params =
  mean_interarrival :: real
  p_priority :: real
  p_fast :: real
  c_reg :: int
  c_phleb :: int
  c_fast :: int
  c_slow :: int
  use_verify :: bool
  c_verify :: int
  sim_time :: real
  warm_up :: real
  service_time :: service_times

text \<open>
  Python's \<open>random\<close> module is a library outside the repository. It is taken as a
  parameter: a generator state \<open>'g\<close> (the module's hidden global state), \<open>random.seed\<close>,
  which replaces that state by one that depends on the seed alone, and the three draws
  the code uses, each returning the value drawn and the next state.
\<close>

record 'g pyrandom =
  rnd_seed :: "int \<Rightarrow> 'g"
  rnd_random :: "'g \<Rightarrow> real \<times> 'g"
  rnd_expovariate :: "real \<Rightarrow> 'g \<Rightarrow> real \<times> 'g"
  rnd_triangular :: "real \<Rightarrow> real \<Rightarrow> real \<Rightarrow> 'g \<Rightarrow> real \<times> 'g"

datatype test_type = Fast | Slow

definition sample_interarrival :: "'g pyrandom \<Rightarrow> real \<Rightarrow> 'g \<Rightarrow> error + (real \<times> 'g)" where
  "sample_interarrival L mean g =
     (if mean = 0 then Inl ZeroDivisionError else Inr (rnd_expovariate L (1 / mean) g))"

definition sample_triangular :: "'g pyrandom \<Rightarrow> real \<Rightarrow> real \<Rightarrow> real \<Rightarrow> 'g \<Rightarrow> real \<times> 'g" where
  "sample_triangular L min_val mode_val max_val g = rnd_triangular L min_val max_val mode_val g"

definition get_service_time :: "'g pyrandom \<Rightarrow> real \<times> real \<times> real \<Rightarrow> 'g \<Rightarrow> real \<times> 'g" where
  "get_service_time L triple g = (case triple of (a, m, b) \<Rightarrow> sample_triangular L a m b g)"

definition sample_priority :: "'g pyrandom \<Rightarrow> real \<Rightarrow> 'g \<Rightarrow> int \<times> 'g" where
  "sample_priority L p g = (case rnd_random L g of (u, g') \<Rightarrow> (if u < p then 0 else 1, g'))"

definition sample_test_type :: "'g pyrandom \<Rightarrow> real \<Rightarrow> 'g \<Rightarrow> test_type \<times> 'g" where
  "sample_test_type L p g = (case rnd_random L g of (u, g') \<Rightarrow> (if u < p then Fast else Slow, g'))"

section \<open>Logging structure\<close>

record patient_record =
  r_pid :: nat
  r_arrival :: real
  r_finish :: real
  r_priority :: int
  r_test_type :: test_type
  r_wait_reg :: real
  r_wait_sample :: real
  r_wait_machine :: real
  r_wait_verify :: real
  r_system_time :: real

record counts =
  cnt_priority :: nat
  cnt_normal :: nat
  cnt_fast :: nat
  cnt_slow :: nat

record log =
  patients :: "patient_record list"
  log_wait_reg :: "real list"
  log_wait_sample :: "real list"
  log_wait_machine :: "real list"
  log_wait_verify :: "real list"
  log_system_time :: "real list"
  counts :: counts

definition make_log :: log where
  "make_log = \<lparr>patients = [], log_wait_reg = [], log_wait_sample = [], log_wait_machine = [],
     log_wait_verify = [], log_system_time = [],
     counts = \<lparr>cnt_priority = 0, cnt_normal = 0, cnt_fast = 0, cnt_slow = 0\<rparr>\<rparr>"

section \<open>Priority resource\<close>

text \<open>
  Modelled from the spec: the Priority Resource (\<open>simpy.PriorityResource\<close>, a library that
  is not among the repository's files). A pool has a fixed capacity, the list of holders
  of its slots and a queue of pending requests ordered by priority class, then by a
  strictly increasing sequence number. A request is granted only when a slot is free and
  it is the head of the queue; releasing a slot grants it to the head of the queue in the
  same instant. A pool of non-positive capacity cannot be built.
\<close>

record request =
  rq_priority :: int
  rq_seq :: nat
  rq_pid :: nat

record resource =
  capacity :: int
  users :: "nat list"
  put_queue :: "request list"
  next_seq :: nat

definition new_resource :: "int \<Rightarrow> error + resource" where
  "new_resource c =
     (if c \<le> 0 then Inl ValueError
      else Inr \<lparr>capacity = c, users = [], put_queue = [], next_seq = 0\<rparr>)"

definition rq_before :: "request \<Rightarrow> request \<Rightarrow> bool" where
  "rq_before a b =
     (rq_priority a < rq_priority b \<or> (rq_priority a = rq_priority b \<and> rq_seq a < rq_seq b))"

fun queue_insert :: "request \<Rightarrow> request list \<Rightarrow> request list" where
  "queue_insert x [] = [x]"
| "queue_insert x (y # ys) = (if rq_before x y then x # y # ys else y # queue_insert x ys)"

definition res_grant :: "resource \<Rightarrow> resource \<times> request option" where
  "res_grant q =
     (case put_queue q of
        [] \<Rightarrow> (q, None)
      | x # xs \<Rightarrow>
          if int (length (users q)) < capacity q
          then (q\<lparr>users := users q @ [rq_pid x], put_queue := xs\<rparr>, Some x)
          else (q, None))"

definition res_request :: "int \<Rightarrow> nat \<Rightarrow> resource \<Rightarrow> resource \<times> request option" where
  "res_request prio pid q =
     res_grant (q\<lparr>put_queue :=
                    queue_insert \<lparr>rq_priority = prio, rq_seq = next_seq q, rq_pid = pid\<rparr> (put_queue q),
                  next_seq := next_seq q + 1\<rparr>)"

definition res_release :: "nat \<Rightarrow> resource \<Rightarrow> resource \<times> request option" where
  "res_release pid q = res_grant (q\<lparr>users := remove1 pid (users q)\<rparr>)"

section \<open>Event clock and scheduler\<close>

text \<open>
  Modelled from the spec: the Event Clock and Scheduler (\<open>simpy.Environment\<close>, a library
  that is not among the repository's files). The clock holds the logical time and the
  pending events, kept in firing order: earliest time first and, at one instant, a newly
  started process before the timeouts and grants of that instant, then in the order of
  scheduling. An event resumes the process that waits for it: the arrival generator or
  one patient process. A timeout of negative delay is refused.
\<close>

datatype ev = EvArrivals | EvPatient nat

record event =
  ev_time :: real
  ev_prio :: nat
  ev_id :: nat
  ev_what :: ev

definition URGENT :: nat where "URGENT = 0"
definition NORMAL :: nat where "NORMAL = 1"

definition ev_before :: "event \<Rightarrow> event \<Rightarrow> bool" where
  "ev_before a b =
     (ev_time a < ev_time b \<or>
      (ev_time a = ev_time b \<and>
         (ev_prio a < ev_prio b \<or> (ev_prio a = ev_prio b \<and> ev_id a < ev_id b))))"

fun heap_insert :: "event \<Rightarrow> event list \<Rightarrow> event list" where
  "heap_insert e [] = [e]"
| "heap_insert e (x # xs) = (if ev_before e x then e # x # xs else x # heap_insert e xs)"

text \<open>
  The local variables of one run of the generator \<open>patient\<close>, with the point where it is
  suspended. A local that has not been assigned yet holds 0 and is never read.
\<close>

datatype ppc =
  PInit | PWaitReg | PServReg | PWaitSample | PServSample
  | PWaitMachine | PServMachine | PWaitVerify | PServVerify | PDone

record pstate =
  pc :: ppc
  priority :: int
  test_type :: test_type
  arrival_time :: real
  q_start :: real
  wait_reg :: real
  service_reg :: real
  wait_sample :: real
  service_sample :: real
  service_test :: real
  wait_machine :: real
  wait_verify :: real
  service_verify :: real

datatype resname = Reg | Phleb | MachineFast | MachineSlow | Verify

record 'g env =
  now :: real
  eid :: nat
  heap :: "event list"
  procs :: "nat \<Rightarrow> pstate option"
  arr_pid :: nat
  res :: "resname \<Rightarrow> resource option"
  log :: log
  rng :: 'g

definition schedule :: "nat \<Rightarrow> real \<Rightarrow> ev \<Rightarrow> 'g env \<Rightarrow> 'g env" where
  "schedule prio delay w s =
     s\<lparr>eid := eid s + 1,
       heap := heap_insert \<lparr>ev_time = now s + delay, ev_prio = prio, ev_id = eid s, ev_what = w\<rparr> (heap s)\<rparr>"

definition timeout :: "real \<Rightarrow> ev \<Rightarrow> 'g env \<Rightarrow> error + 'g env" where
  "timeout delay w s = (if delay < 0 then Inl ValueError else Inr (schedule NORMAL delay w s))"

text \<open>The process whose request was granted is resumed by an event of the same instant.\<close>

definition granted :: "request option \<Rightarrow> 'g env \<Rightarrow> 'g env" where
  "granted g s = (case g of None \<Rightarrow> s | Some x \<Rightarrow> schedule NORMAL 0 (EvPatient (rq_pid x)) s)"

text \<open>The pool \<open>r\<close> after an operation on it, stored back; the process whose request the
  operation granted, if any, is resumed.\<close>

definition update_pool :: "resname \<Rightarrow> resource \<times> request option \<Rightarrow> 'g env \<Rightarrow> 'g env" where
  "update_pool r qg s = granted (snd qg) (s\<lparr>res := (res s)(r \<mapsto> fst qg)\<rparr>)"

text \<open>\<open>resources[name].request(priority=...)\<close> and the release at the end of the
  \<open>with\<close> block. A pool that is \<open>None\<close> has no such method.\<close>

definition request :: "resname \<Rightarrow> int \<Rightarrow> nat \<Rightarrow> 'g env \<Rightarrow> error + 'g env" where
  "request r prio pid s =
     (case res s r of
        None \<Rightarrow> Inl AttributeError
      | Some q \<Rightarrow> Inr (update_pool r (res_request prio pid q) s))"

definition release :: "resname \<Rightarrow> nat \<Rightarrow> 'g env \<Rightarrow> error + 'g env" where
  "release r pid s =
     (case res s r of
        None \<Rightarrow> Inl AttributeError
      | Some q \<Rightarrow> Inr (update_pool r (res_release pid q) s))"

definition set_proc :: "nat \<Rightarrow> pstate \<Rightarrow> 'g env \<Rightarrow> 'g env" where
  "set_proc pid p s = s\<lparr>procs := (procs s)(pid \<mapsto> p)\<rparr>"

section \<open>Patient process\<close>

text \<open>
  The generator \<open>patient\<close>, cut at its \<open>yield\<close>s: each definition below is the code that
  runs between two suspensions, for the process \<open>pid\<close> with locals \<open>p\<close>.
\<close>

text \<open>From the start to the first \<open>yield req\<close> (registration).\<close>

definition patient_arrive :: "nat \<Rightarrow> pstate \<Rightarrow> 'g env \<Rightarrow> error + 'g env" where
  "patient_arrive pid p s =
     request Reg (priority p) pid
       (set_proc pid (p\<lparr>arrival_time := now s, q_start := now s, pc := PWaitReg\<rparr>) s)"

text \<open>Registration granted: the wait is recorded, the service time drawn and waited for.\<close>

definition patient_reg_begin :: "'g pyrandom \<Rightarrow> params \<Rightarrow> nat \<Rightarrow> pstate \<Rightarrow> 'g env \<Rightarrow> error + 'g env" where
  "patient_reg_begin L P pid p s =
     (case get_service_time L (registration (service_time P)) (rng s) of
        (service, g) \<Rightarrow>
          timeout service (EvPatient pid)
            (set_proc pid (p\<lparr>wait_reg := now s - q_start p, service_reg := service, pc := PServReg\<rparr>)
               (s\<lparr>rng := g\<rparr>)))"

text \<open>Registration done: the slot is released and sampling is requested.\<close>

definition patient_reg_end :: "nat \<Rightarrow> pstate \<Rightarrow> 'g env \<Rightarrow> error + 'g env" where
  "patient_reg_end pid p s =
     (case release Reg pid s of
        Inl e \<Rightarrow> Inl e
      | Inr s1 \<Rightarrow>
          request Phleb (priority p) pid
            (set_proc pid (p\<lparr>q_start := now s1, pc := PWaitSample\<rparr>) s1))"

definition patient_sample_begin :: "'g pyrandom \<Rightarrow> params \<Rightarrow> nat \<Rightarrow> pstate \<Rightarrow> 'g env \<Rightarrow> error + 'g env" where
  "patient_sample_begin L P pid p s =
     (case get_service_time L (sampling (service_time P)) (rng s) of
        (service, g) \<Rightarrow>
          timeout service (EvPatient pid)
            (set_proc pid (p\<lparr>wait_sample := now s - q_start p, service_sample := service,
                             pc := PServSample\<rparr>)
               (s\<lparr>rng := g\<rparr>)))"

text \<open>Sampling done: the slot is released; the machine pool is chosen by the test type
  and the test's service time is drawn before the machine is requested.\<close>

definition machine_of :: "test_type \<Rightarrow> resname" where
  "machine_of t = (if t = Fast then MachineFast else MachineSlow)"

definition patient_sample_end :: "'g pyrandom \<Rightarrow> params \<Rightarrow> nat \<Rightarrow> pstate \<Rightarrow> 'g env \<Rightarrow> error + 'g env" where
  "patient_sample_end L P pid p s =
     (case release Phleb pid s of
        Inl e \<Rightarrow> Inl e
      | Inr s1 \<Rightarrow>
          (case get_service_time L
                  (if test_type p = Fast then test_fast (service_time P)
                   else test_slow (service_time P)) (rng s1) of
             (service, g) \<Rightarrow>
               request (machine_of (test_type p)) (priority p) pid
                 (set_proc pid (p\<lparr>q_start := now s1, service_test := service, pc := PWaitMachine\<rparr>)
                    (s1\<lparr>rng := g\<rparr>))))"

definition patient_test_begin :: "nat \<Rightarrow> pstate \<Rightarrow> 'g env \<Rightarrow> error + 'g env" where
  "patient_test_begin pid p s =
     timeout (service_test p) (EvPatient pid)
       (set_proc pid (p\<lparr>wait_machine := now s - q_start p, pc := PServMachine\<rparr>) s)"

text \<open>The end of the generator: the record is appended to the log and, past the warm-up,
  the figures to the counted lists.\<close>

definition patient_finish :: "params \<Rightarrow> nat \<Rightarrow> pstate \<Rightarrow> 'g env \<Rightarrow> 'g env" where
  "patient_finish P pid p s =
     (let finish_time = now s;
          system_time = finish_time - arrival_time p;
          record = \<lparr>r_pid = pid, r_arrival = arrival_time p, r_finish = finish_time,
                    r_priority = priority p, r_test_type = test_type p,
                    r_wait_reg = wait_reg p, r_wait_sample = wait_sample p,
                    r_wait_machine = wait_machine p, r_wait_verify = wait_verify p,
                    r_system_time = system_time\<rparr>;
          lg = (log s)\<lparr>patients := patients (log s) @ [record]\<rparr>;
          lg' = (if warm_up P \<le> arrival_time p
                 then lg\<lparr>log_wait_reg := log_wait_reg lg @ [wait_reg p],
                         log_wait_sample := log_wait_sample lg @ [wait_sample p],
                         log_wait_machine := log_wait_machine lg @ [wait_machine p],
                         log_wait_verify := (if res s Verify \<noteq> None
                                             then log_wait_verify lg @ [wait_verify p]
                                             else log_wait_verify lg),
                         log_system_time := log_system_time lg @ [system_time]\<rparr>
                 else lg)
      in set_proc pid (p\<lparr>pc := PDone\<rparr>) (s\<lparr>log := lg'\<rparr>))"

text \<open>Test done: the machine is released; verification is requested when the pool
  exists, otherwise the patient is finished.\<close>

definition patient_test_end :: "params \<Rightarrow> nat \<Rightarrow> pstate \<Rightarrow> 'g env \<Rightarrow> error + 'g env" where
  "patient_test_end P pid p s =
     (case release (machine_of (test_type p)) pid s of
        Inl e \<Rightarrow> Inl e
      | Inr s1 \<Rightarrow>
          (if res s1 Verify \<noteq> None
           then request Verify (priority p) pid
                  (set_proc pid (p\<lparr>wait_verify := 0, q_start := now s1, pc := PWaitVerify\<rparr>) s1)
           else Inr (patient_finish P pid (p\<lparr>wait_verify := 0\<rparr>) s1)))"

definition patient_verify_begin :: "'g pyrandom \<Rightarrow> params \<Rightarrow> nat \<Rightarrow> pstate \<Rightarrow> 'g env \<Rightarrow> error + 'g env" where
  "patient_verify_begin L P pid p s =
     (case get_service_time L (verification (service_time P)) (rng s) of
        (service, g) \<Rightarrow>
          timeout service (EvPatient pid)
            (set_proc pid (p\<lparr>wait_verify := now s - q_start p, service_verify := service,
                             pc := PServVerify\<rparr>)
               (s\<lparr>rng := g\<rparr>)))"

definition patient_verify_end :: "params \<Rightarrow> nat \<Rightarrow> pstate \<Rightarrow> 'g env \<Rightarrow> error + 'g env" where
  "patient_verify_end P pid p s =
     (case release Verify pid s of
        Inl e \<Rightarrow> Inl e
      | Inr s1 \<Rightarrow> Inr (patient_finish P pid p s1))"

text \<open>Resuming the process \<open>pid\<close> runs it from where it is suspended to its next
  \<open>yield\<close>; a finished generator is not resumed again.\<close>

definition patient :: "'g pyrandom \<Rightarrow> params \<Rightarrow> nat \<Rightarrow> 'g env \<Rightarrow> error + 'g env" where
  "patient L P pid s =
     (case procs s pid of
        None \<Rightarrow> Inr s
      | Some p \<Rightarrow>
          (case pc p of
             PInit \<Rightarrow> patient_arrive pid p s
           | PWaitReg \<Rightarrow> patient_reg_begin L P pid p s
           | PServReg \<Rightarrow> patient_reg_end pid p s
           | PWaitSample \<Rightarrow> patient_sample_begin L P pid p s
           | PServSample \<Rightarrow> patient_sample_end L P pid p s
           | PWaitMachine \<Rightarrow> patient_test_begin pid p s
           | PServMachine \<Rightarrow> patient_test_end P pid p s
           | PWaitVerify \<Rightarrow> patient_verify_begin L P pid p s
           | PServVerify \<Rightarrow> patient_verify_end P pid p s
           | PDone \<Rightarrow> Inr s))"

section \<open>Arrivals generator\<close>

definition new_patient :: "int \<Rightarrow> test_type \<Rightarrow> pstate" where
  "new_patient prio tt =
     \<lparr>pc = PInit, priority = prio, test_type = tt, arrival_time = 0, q_start = 0,
      wait_reg = 0, service_reg = 0, wait_sample = 0, service_sample = 0, service_test = 0,
      wait_machine = 0, wait_verify = 0, service_verify = 0\<rparr>"

definition count_arrival :: "int \<Rightarrow> test_type \<Rightarrow> counts \<Rightarrow> counts" where
  "count_arrival prio tt c =
     (let c1 = (if prio = 0 then c\<lparr>cnt_priority := cnt_priority c + 1\<rparr>
                else c\<lparr>cnt_normal := cnt_normal c + 1\<rparr>)
      in if tt = Fast then c1\<lparr>cnt_fast := cnt_fast c1 + 1\<rparr>
         else c1\<lparr>cnt_slow := cnt_slow c1 + 1\<rparr>)"

text \<open>One turn of the \<open>while True\<close> loop of \<open>arrivals\<close>, up to its \<open>yield\<close>.\<close>

definition arrivals :: "'g pyrandom \<Rightarrow> params \<Rightarrow> 'g env \<Rightarrow> error + 'g env" where
  "arrivals L P s =
     (case sample_priority L (p_priority P) (rng s) of
        (prio, g1) \<Rightarrow>
          (case sample_test_type L (p_fast P) g1 of
             (tt, g2) \<Rightarrow>
               (let pid = arr_pid s;
                    s1 = s\<lparr>rng := g2, log := (log s)\<lparr>counts := count_arrival prio tt (counts (log s))\<rparr>\<rparr>;
                    s2 = schedule URGENT 0 (EvPatient pid) (set_proc pid (new_patient prio tt) s1);
                    s3 = s2\<lparr>arr_pid := pid + 1\<rparr>
                in (case sample_interarrival L (mean_interarrival P) (rng s3) of
                      Inl e \<Rightarrow> Inl e
                    | Inr (iat, g3) \<Rightarrow> timeout iat EvArrivals (s3\<lparr>rng := g3\<rparr>)))))"

section \<open>Run simulation\<close>

definition step :: "'g pyrandom \<Rightarrow> params \<Rightarrow> ev \<Rightarrow> 'g env \<Rightarrow> error + 'g env" where
  "step L P w s = (case w of EvArrivals \<Rightarrow> arrivals L P s | EvPatient pid \<Rightarrow> patient L P pid s)"

text \<open>
  \<open>env.run(until=sim_time)\<close>: the earliest pending event is fired as long as its time is
  before the horizon. The loop need not end (arrivals may pile up at one instant), so it
  runs on fuel: \<open>None\<close> is a run that has not stopped within \<open>n\<close> events.
\<close>

fun env_run :: "'g pyrandom \<Rightarrow> params \<Rightarrow> nat \<Rightarrow> 'g env \<Rightarrow> (error + 'g env) option" where
  "env_run L P 0 s = None"
| "env_run L P (Suc n) s =
     (case heap s of
        [] \<Rightarrow> Some (Inr s)
      | e # es \<Rightarrow>
          if sim_time P \<le> ev_time e then Some (Inr s)
          else (case step L P (ev_what e) (s\<lparr>now := ev_time e, heap := es\<rparr>) of
                  Inl err \<Rightarrow> Some (Inl err)
                | Inr s' \<Rightarrow> env_run L P n s'))"

text \<open>The dictionary \<open>resources\<close>: four pools, and the verification pool or \<open>None\<close>.\<close>

definition make_resources :: "params \<Rightarrow> error + (resname \<Rightarrow> resource option)" where
  "make_resources P =
     (case new_resource (c_reg P) of Inl e \<Rightarrow> Inl e | Inr reg \<Rightarrow>
      (case new_resource (c_phleb P) of Inl e \<Rightarrow> Inl e | Inr phleb \<Rightarrow>
       (case new_resource (c_fast P) of Inl e \<Rightarrow> Inl e | Inr mfast \<Rightarrow>
        (case new_resource (c_slow P) of Inl e \<Rightarrow> Inl e | Inr mslow \<Rightarrow>
         (let rs = (\<lambda>r. None)(Reg \<mapsto> reg, Phleb \<mapsto> phleb, MachineFast \<mapsto> mfast, MachineSlow \<mapsto> mslow)
          in if use_verify P \<and> 0 < c_verify P
             then (case new_resource (c_verify P) of Inl e \<Rightarrow> Inl e
                   | Inr verify \<Rightarrow> Inr (rs(Verify \<mapsto> verify)))
             else Inr rs)))))"

text \<open>
  The whole run, up to the state the clock stops in. \<open>g\<close> is the state of the global
  generator before the call, which \<open>random.seed(seed)\<close> overwrites. A horizon that is not
  after time 0 is refused by the clock.
\<close>

definition simulate :: "'g pyrandom \<Rightarrow> nat \<Rightarrow> params \<Rightarrow> int \<Rightarrow> 'g \<Rightarrow> (error + 'g env) option" where
  "simulate L fuel P seed g =
     (let g0 = rnd_seed L seed in
      case make_resources P of
        Inl e \<Rightarrow> Some (Inl e)
      | Inr rs \<Rightarrow>
          (let s0 = \<lparr>now = 0, eid = 0, heap = [], procs = (\<lambda>pid. None), arr_pid = 0, res = rs,
                     log = make_log, rng = g0\<rparr>;
               s1 = schedule URGENT 0 EvArrivals s0
           in if sim_time P \<le> 0 then Some (Inl ValueError) else env_run L P fuel s1))"

definition run_simulation :: "'g pyrandom \<Rightarrow> nat \<Rightarrow> params \<Rightarrow> int \<Rightarrow> 'g \<Rightarrow> (error + log) option" where
  "run_simulation L fuel P seed g = map_option (map_sum id log) (simulate L fuel P seed g)"

section \<open>Summary and analysis\<close>

text \<open>The dictionary returned by \<open>summarize\<close>, one field per key, in the order of the
  source.\<close>

record summary =
  total_pasien :: nat
  pasien_dihitung :: nat
  mean_wait_registrasi :: pyfloat
  mean_wait_sampel :: pyfloat
  mean_wait_mesin :: pyfloat
  mean_total_time :: pyfloat
  p95_total_time :: pyfloat
  komposisi :: counts

definition summarize :: "log \<Rightarrow> error + summary" where
  "summarize lg =
     (case safe_mean (log_wait_reg lg) of Inl e \<Rightarrow> Inl e | Inr m_reg \<Rightarrow>
      (case safe_mean (log_wait_sample lg) of Inl e \<Rightarrow> Inl e | Inr m_sample \<Rightarrow>
       (case safe_mean (log_wait_machine lg) of Inl e \<Rightarrow> Inl e | Inr m_machine \<Rightarrow>
        (case safe_mean (log_system_time lg) of Inl e \<Rightarrow> Inl e | Inr m_sys \<Rightarrow>
         (case percentile (log_system_time lg) 95 of Inl e \<Rightarrow> Inl e | Inr p95 \<Rightarrow>
            Inr \<lparr>total_pasien = length (patients lg),
                 pasien_dihitung = length (log_system_time lg),
                 mean_wait_registrasi = m_reg, mean_wait_sampel = m_sample,
                 mean_wait_mesin = m_machine, mean_total_time = m_sys,
                 p95_total_time = p95, komposisi = counts lg\<rparr>)))))"

text \<open>Float comparison and addition: every comparison with NaN is false, every sum
  with NaN is NaN.\<close>

definition pf_gt :: "pyfloat \<Rightarrow> pyfloat \<Rightarrow> bool" where
  "pf_gt a b = (case a of NaN \<Rightarrow> False | Fin x \<Rightarrow> (case b of NaN \<Rightarrow> False | Fin y \<Rightarrow> y < x))"

definition pf_add :: "pyfloat \<Rightarrow> pyfloat \<Rightarrow> pyfloat" where
  "pf_add a b = (case a of NaN \<Rightarrow> NaN | Fin x \<Rightarrow> (case b of NaN \<Rightarrow> NaN | Fin y \<Rightarrow> Fin (x + y)))"

datatype stage = Registrasi | Pengambilan_Sampel | Mesin_Tes | Verifikasi

text \<open>\<open>max(stages, key=stages.get)\<close> walks the dictionary in insertion order and keeps
  the first key whose value no later value exceeds.\<close>

fun max_key :: "stage \<times> pyfloat \<Rightarrow> (stage \<times> pyfloat) list \<Rightarrow> stage \<times> pyfloat" where
  "max_key best [] = best"
| "max_key best (x # xs) = max_key (if pf_gt (snd x) (snd best) then x else best) xs"

record bottleneck_analysis =
  bottleneck :: stage
  wait_time :: pyfloat
  severity :: pyfloat
  all_stages :: "(stage \<times> pyfloat) list"

definition analyze_bottleneck :: "summary \<Rightarrow> log \<Rightarrow> error + bottleneck_analysis" where
  "analyze_bottleneck sm lg =
     (case (if log_wait_verify lg \<noteq> [] then safe_mean (log_wait_verify lg) else Inr (Fin 0)) of
        Inl e \<Rightarrow> Inl e
      | Inr m_verify \<Rightarrow>
          (let stages = [(Registrasi, mean_wait_registrasi sm),
                         (Pengambilan_Sampel, mean_wait_sampel sm),
                         (Mesin_Tes, mean_wait_mesin sm),
                         (Verifikasi, m_verify)];
               best = max_key (hd stages) (tl stages);
               bottleneck_time = snd best;
               total_wait = foldl pf_add (Fin 0) (map snd stages)
           in Inr \<lparr>bottleneck = fst best, wait_time = bottleneck_time,
                   severity = (case total_wait of
                                 NaN \<Rightarrow> Fin 0
                               | Fin t \<Rightarrow> if 0 < t
                                          then (case bottleneck_time of NaN \<Rightarrow> NaN
                                                | Fin b \<Rightarrow> Fin (b / t * 100))
                                          else Fin 0),
                   all_stages = stages\<rparr>))"

text \<open>The dictionary returned by \<open>calculate_utilization\<close>; \<open>None\<close> is the empty
  dictionary it returns for a log without records. True division raises on a zero
  divisor.\<close>

record utilization =
  util_registrasi :: real
  util_sampel :: real
  util_mesin_cepat :: real
  util_mesin_lama :: real
  util_verifikasi :: real

definition py_div :: "real \<Rightarrow> real \<Rightarrow> error + real" where
  "py_div a b = (if b = 0 then Inl ZeroDivisionError else Inr (a / b))"

definition mode_of :: "real \<times> real \<times> real \<Rightarrow> real" where
  "mode_of triple = fst (snd triple)"

definition calculate_utilization :: "log \<Rightarrow> params \<Rightarrow> error + utilization option" where
  "calculate_utilization lg P =
     (if patients lg = [] then Inr None
      else
        let avg_reg = mode_of (registration (service_time P));
            avg_sample = mode_of (sampling (service_time P));
            avg_fast = mode_of (test_fast (service_time P));
            avg_slow = mode_of (test_slow (service_time P));
            avg_verify = (if use_verify P then mode_of (verification (service_time P)) else 0);
            total_patients = real (length (patients lg));
            fast_patients = real (cnt_fast (counts lg));
            slow_patients = real (cnt_slow (counts lg))
        in
        (case py_div (total_patients * avg_reg) (real_of_int (c_reg P) * sim_time P) of Inl e \<Rightarrow> Inl e | Inr u_reg \<Rightarrow>
         (case py_div (total_patients * avg_sample) (real_of_int (c_phleb P) * sim_time P) of Inl e \<Rightarrow> Inl e | Inr u_phleb \<Rightarrow>
          (case py_div (fast_patients * avg_fast) (real_of_int (c_fast P) * sim_time P) of Inl e \<Rightarrow> Inl e | Inr u_fast \<Rightarrow>
           (case py_div (slow_patients * avg_slow) (real_of_int (c_slow P) * sim_time P) of Inl e \<Rightarrow> Inl e | Inr u_slow \<Rightarrow>
            (case (if use_verify P
                   then (case py_div (total_patients * avg_verify) (real_of_int (c_verify P) * sim_time P) of
                           Inl e \<Rightarrow> Inl e | Inr u \<Rightarrow> Inr (u * 100))
                   else Inr 0) of Inl e \<Rightarrow> Inl e | Inr u_verify \<Rightarrow>
               Inr (Some \<lparr>util_registrasi = min (u_reg * 100) 100,
                          util_sampel = min (u_phleb * 100) 100,
                          util_mesin_cepat = min (u_fast * 100) 100,
                          util_mesin_lama = min (u_slow * 100) 100,
                          util_verifikasi = min u_verify 100\<rparr>)))))))"

section \<open>Invariants of a run\<close>

definition ev_token :: "event \<Rightarrow> nat multiset" where
  "ev_token e = (case ev_what e of EvArrivals \<Rightarrow> {#} | EvPatient pid \<Rightarrow> {#pid#})"

definition heap_tokens :: "event list \<Rightarrow> nat multiset" where
  "heap_tokens h = sum_list (map ev_token h)"

definition res_tokens :: "resource option \<Rightarrow> nat multiset" where
  "res_tokens ro = (case ro of None \<Rightarrow> {#} | Some q \<Rightarrow> mset (map rq_pid (put_queue q)))"

definition queue_tokens :: "(resname \<Rightarrow> resource option) \<Rightarrow> nat multiset" where
  "queue_tokens rs = res_tokens (rs Reg) + res_tokens (rs Phleb) + res_tokens (rs MachineFast)
     + res_tokens (rs MachineSlow) + res_tokens (rs Verify)"

definition tokens :: "'g env \<Rightarrow> nat multiset" where
  "tokens s = heap_tokens (heap s) + queue_tokens (res s)"

definition is_wait :: "ppc \<Rightarrow> bool" where
  "is_wait c = (c = PWaitReg \<or> c = PWaitSample \<or> c = PWaitMachine \<or> c = PWaitVerify)"

definition acc_reg :: "pstate \<Rightarrow> real" where
  "acc_reg p = arrival_time p + wait_reg p + service_reg p"
definition acc_sample :: "pstate \<Rightarrow> real" where
  "acc_sample p = acc_reg p + wait_sample p + service_sample p"
definition acc_test :: "pstate \<Rightarrow> real" where
  "acc_test p = acc_sample p + wait_machine p + service_test p"
definition acc_verify :: "pstate \<Rightarrow> real" where
  "acc_verify p = acc_test p + wait_verify p + service_verify p"

definition nn_reg :: "pstate \<Rightarrow> bool" where
  "nn_reg p = (0 \<le> wait_reg p \<and> 0 \<le> service_reg p)"
definition nn_sample :: "pstate \<Rightarrow> bool" where
  "nn_sample p = (nn_reg p \<and> 0 \<le> wait_sample p \<and> 0 \<le> service_sample p)"
definition nn_test :: "pstate \<Rightarrow> bool" where
  "nn_test p = (nn_sample p \<and> 0 \<le> wait_machine p \<and> 0 \<le> service_test p)"
definition nn_verify :: "pstate \<Rightarrow> bool" where
  "nn_verify p = (nn_test p \<and> 0 \<le> wait_verify p \<and> 0 \<le> service_verify p)"

definition ev_ok :: "pstate \<Rightarrow> real \<Rightarrow> bool" where
  "ev_ok p t =
     (case pc p of
        PServReg \<Rightarrow> t = acc_reg p
      | PServSample \<Rightarrow> t = acc_sample p
      | PServMachine \<Rightarrow> t = acc_test p
      | PServVerify \<Rightarrow> t = acc_verify p
      | _ \<Rightarrow> True)"

definition proc_ok :: "real \<Rightarrow> pstate \<Rightarrow> bool" where
  "proc_ok n p =
     (case pc p of
        PInit \<Rightarrow> True
      | PWaitReg \<Rightarrow> q_start p = arrival_time p \<and> q_start p \<le> n
      | PServReg \<Rightarrow> nn_reg p
      | PWaitSample \<Rightarrow> nn_reg p \<and> q_start p = acc_reg p \<and> q_start p \<le> n
      | PServSample \<Rightarrow> nn_sample p
      | PWaitMachine \<Rightarrow> nn_sample p \<and> q_start p = acc_sample p \<and> q_start p \<le> n
      | PServMachine \<Rightarrow> nn_test p
      | PWaitVerify \<Rightarrow> nn_test p \<and> q_start p = acc_test p \<and> q_start p \<le> n
      | PServVerify \<Rightarrow> nn_verify p
      | PDone \<Rightarrow> True)"

definition rec_ok :: "bool \<Rightarrow> patient_record \<Rightarrow> pstate \<Rightarrow> bool" where
  "rec_ok v r p =
     (r_system_time r = r_finish r - r_arrival r \<and>
      r_arrival r = arrival_time p \<and>
      r_wait_reg r = wait_reg p \<and> r_wait_sample r = wait_sample p \<and>
      r_wait_machine r = wait_machine p \<and> r_wait_verify r = wait_verify p \<and>
      nn_test p \<and> 0 \<le> wait_verify p \<and> (if v then 0 \<le> service_verify p else wait_verify p = 0) \<and>
      r_finish r = acc_test p + wait_verify p + (if v then service_verify p else 0))"

definition counted :: "params \<Rightarrow> patient_record list \<Rightarrow> patient_record list" where
  "counted P rs = filter (\<lambda>r. warm_up P \<le> r_arrival r) rs"

definition warm_ok :: "params \<Rightarrow> bool \<Rightarrow> log \<Rightarrow> bool" where
  "warm_ok P v lg =
     (log_wait_reg lg = map r_wait_reg (counted P (patients lg)) \<and>
      log_wait_sample lg = map r_wait_sample (counted P (patients lg)) \<and>
      log_wait_machine lg = map r_wait_machine (counted P (patients lg)) \<and>
      log_wait_verify lg = (if v then map r_wait_verify (counted P (patients lg)) else []) \<and>
      log_system_time lg = map r_system_time (counted P (patients lg)))"

definition inv_heap :: "real \<Rightarrow> event list \<Rightarrow> bool" where
  "inv_heap n h = (sorted (map ev_time h) \<and> (\<forall>e\<in>set h. n \<le> ev_time e))"

definition inv_ev :: "(nat \<Rightarrow> pstate option) \<Rightarrow> event list \<Rightarrow> bool" where
  "inv_ev pr h =
     (\<forall>e\<in>set h. \<forall>pid. ev_what e = EvPatient pid \<longrightarrow> (\<exists>p. pr pid = Some p \<and> ev_ok p (ev_time e)))"

definition inv_q :: "(nat \<Rightarrow> pstate option) \<Rightarrow> (resname \<Rightarrow> resource option) \<Rightarrow> bool" where
  "inv_q pr rs = (\<forall>pid. pid \<in># queue_tokens rs \<longrightarrow> (\<exists>p. pr pid = Some p \<and> is_wait (pc p)))"

definition inv_proc :: "real \<Rightarrow> nat \<Rightarrow> (nat \<Rightarrow> pstate option) \<Rightarrow> bool" where
  "inv_proc n k pr = (\<forall>pid p. pr pid = Some p \<longrightarrow> proc_ok n p \<and> pid < k)"

definition inv_log :: "bool \<Rightarrow> (nat \<Rightarrow> pstate option) \<Rightarrow> log \<Rightarrow> bool" where
  "inv_log v pr lg =
     ((\<forall>r\<in>set (patients lg). \<exists>p. pr (r_pid r) = Some p \<and> pc p = PDone \<and> rec_ok v r p) \<and>
      distinct (map r_pid (patients lg)))"

definition inv_cnt :: "nat \<Rightarrow> log \<Rightarrow> bool" where
  "inv_cnt k lg =
     (cnt_priority (counts lg) + cnt_normal (counts lg) = k \<and>
      cnt_fast (counts lg) + cnt_slow (counts lg) = k)"

definition sim_inv :: "params \<Rightarrow> 'g env \<Rightarrow> bool" where
  "sim_inv P s =
     (inv_heap (now s) (heap s) \<and>
      (\<forall>pid. count (tokens s) pid \<le> 1) \<and>
      inv_ev (procs s) (heap s) \<and>
      inv_q (procs s) (res s) \<and>
      inv_proc (now s) (arr_pid s) (procs s) \<and>
      inv_log (res s Verify \<noteq> None) (procs s) (log s) \<and>
      inv_cnt (arr_pid s) (log s) \<and>
      warm_ok P (res s Verify \<noteq> None) (log s))"

section \<open>Operations on one pool and the patients a pool has served\<close>

text \<open>The operations a process performs on a pool, and the pool after a sequence of
  them.\<close>

datatype res_op = Request int nat | Release nat

fun res_apply :: "res_op \<Rightarrow> resource \<Rightarrow> resource \<times> request option" where
  "res_apply (Request prio pid) q = res_request prio pid q"
| "res_apply (Release pid) q = res_release pid q"

fun res_run :: "res_op list \<Rightarrow> resource \<Rightarrow> resource" where
  "res_run [] q = q"
| "res_run (x # xs) q = res_run xs (fst (res_apply x q))"

definition res_ok :: "resource \<Rightarrow> bool" where
  "res_ok q = (sorted_wrt rq_before (put_queue q) \<and> (\<forall>b\<in>set (put_queue q). rq_seq b < next_seq q))"

text \<open>How far the generator \<open>patient\<close> has run, and the number of patients that have been
  through the service of a pool: those whose process is past the \<open>with\<close> block of that
  stage.\<close>

definition progress :: "ppc \<Rightarrow> nat" where
  "progress c = (case c of PInit \<Rightarrow> 0 | PWaitReg \<Rightarrow> 1 | PServReg \<Rightarrow> 2 | PWaitSample \<Rightarrow> 3
     | PServSample \<Rightarrow> 4 | PWaitMachine \<Rightarrow> 5 | PServMachine \<Rightarrow> 6 | PWaitVerify \<Rightarrow> 7
     | PServVerify \<Rightarrow> 8 | PDone \<Rightarrow> 9)"

definition past_stage :: "resname \<Rightarrow> pstate \<Rightarrow> bool" where
  "past_stage r p =
     (case r of
        Reg \<Rightarrow> 2 < progress (pc p)
      | Phleb \<Rightarrow> 4 < progress (pc p)
      | MachineFast \<Rightarrow> test_type p = Fast \<and> 6 < progress (pc p)
      | MachineSlow \<Rightarrow> test_type p = Slow \<and> 6 < progress (pc p)
      | Verify \<Rightarrow> 8 < progress (pc p))"

definition served_by :: "resname \<Rightarrow> 'g env \<Rightarrow> nat" where
  "served_by r s =
     (if res s r = None then 0
      else length (filter (\<lambda>pid. case procs s pid of None \<Rightarrow> False | Some p \<Rightarrow> past_stage r p)
                     [0..<arr_pid s]))"

section \<open>A scripted generator and a configuration for concrete runs\<close>

text \<open>
  An instance of the random library for evaluating runs on concrete inputs: the state
  is the list of the values still to be drawn, every draw takes the next one (0 when the
  list is used up), and seeding installs the whole script.
\<close>

definition draw :: "real list \<Rightarrow> real \<times> real list" where
  "draw g = (case g of [] \<Rightarrow> (0, []) | x # xs \<Rightarrow> (x, xs))"

definition script_lib :: "real list \<Rightarrow> (real list) pyrandom" where
  "script_lib script =
     \<lparr>rnd_seed = (\<lambda>seed. script), rnd_random = draw, rnd_expovariate = (\<lambda>lambd. draw),
      rnd_triangular = (\<lambda>low high mode. draw)\<rparr>"

text \<open>The service-time table of the source and a configuration within the ranges of
  its sidebar.\<close>

definition lab_service_time :: service_times where
  "lab_service_time =
     \<lparr>registration = (2, 3, 5), sampling = (3, 5, 8), test_fast = (8, 12, 18),
      test_slow = (20, 30, 45), verification = (1, 2, 4)\<rparr>"

definition lab_params :: params where
  "lab_params =
     \<lparr>mean_interarrival = 5, p_priority = 1 / 5, p_fast = 7 / 10, c_reg = 1, c_phleb = 2,
      c_fast = 1, c_slow = 1, use_verify = True, c_verify = 1, sim_time = 60, warm_up = 0,
      service_time = lab_service_time\<rparr>"

text \<open>
  A script for two fast, normal-priority patients. The first arrives at time 0 and is
  served without waiting (3, 5, 12 and 2 minutes); the second arrives at time 10, is
  registered and sampled (3 and 5 minutes), waits for the fast machine from 18 to 20,
  is tested for 14 minutes and verified for 2. The third arrival is due at time 110.
\<close>

definition lab_script :: "real list" where
  "lab_script = [1 / 2, 1 / 2, 10, 3, 5, 12, 1 / 2, 1 / 2, 100, 3, 5, 14, 2, 2]"

definition lab_warm :: params where
  "lab_warm = lab_params\<lparr>warm_up := 10\<rparr>"

definition lab_short :: params where
  "lab_short = lab_params\<lparr>sim_time := 30\<rparr>"

text \<open>Configurations that break a rule of the configuration contract: a probability
  above 1, a triangular triple that is not min \<open>\<le>\<close> mode \<open>\<le>\<close> max, and a
  verification pool without capacity.\<close>

definition bad_probability :: params where
  "bad_probability = lab_params\<lparr>p_priority := 3 / 2\<rparr>"

definition bad_triangle :: params where
  "bad_triangle = lab_params\<lparr>service_time := lab_service_time\<lparr>registration := (5, 3, 2)\<rparr>\<rparr>"

definition bad_verify :: params where
  "bad_verify = lab_params\<lparr>c_verify := 0\<rparr>"

text \<open>A log with two counted patients, and the log of the run of \<open>lab_short\<close> on
  \<open>lab_script\<close>.\<close>

definition sample_log :: log where
  "sample_log = make_log\<lparr>log_wait_reg := [1, 3], log_wait_sample := [0, 0],
     log_wait_machine := [2, 6], log_system_time := [25, 31]\<rparr>"

definition short_log :: log where
  "short_log = \<lparr>patients =
          [\<lparr>r_pid = 0, r_arrival = 0, r_finish = 22, r_priority = 1,
              r_test_type = Fast, r_wait_reg = 0, r_wait_sample = 0,
              r_wait_machine = 0, r_wait_verify = 0, r_system_time = 22\<rparr>],
          log_wait_reg = [0], log_wait_sample = [0], log_wait_machine = [0],
          log_wait_verify = [0], log_system_time = [22],
          counts = \<lparr>cnt_priority = 0, cnt_normal = 2, cnt_fast = 2, cnt_slow = 0\<rparr>\<rparr>"

section \<open>Properties of the helper statistics\<close>

lemma subscript_in_range: "0 \<le> i \<Longrightarrow> i < int (length xs) \<Longrightarrow> subscript xs i = Inr (xs ! nat i)"
  by (simp add: subscript_def)

lemma sorted_nth_0_Min:
  assumes "sorted ys" "ys \<noteq> []"
  shows "ys ! 0 = Min (set ys)"
proof -
  from assms obtain y rest where ys: "ys = y # rest" by (cases ys) auto
  with assms(1) have "\<forall>z\<in>set ys. y \<le> z" by auto
  then have "Min (set ys) = y" using ys by (intro Min_eqI) auto
  then show ?thesis by (simp add: ys)
qed

lemma sorted_nth_last_Max:
  assumes "sorted ys" "ys \<noteq> []"
  shows "ys ! (length ys - 1) = Max (set ys)"
proof -
  have mem: "ys ! (length ys - 1) \<in> set ys" using assms(2) by simp
  have "z \<le> ys ! (length ys - 1)" if "z \<in> set ys" for z
  proof -
    from that obtain i where i: "i < length ys" "ys ! i = z" by (auto simp: in_set_conv_nth)
    then have "ys ! i \<le> ys ! (length ys - 1)"
      using assms(1) by (intro sorted_nth_mono) auto
    with i show ?thesis by simp
  qed
  then have "Max (set ys) = ys ! (length ys - 1)" using mem by (intro Max_eqI) auto
  then show ?thesis by simp
qed

lemma percentile_unfold:
  assumes "xs \<noteq> []" "k = real (length xs - 1) * (p / 100)"
  shows "percentile xs p =
     (if py_int k = min (py_int k + 1) (int (length xs) - 1)
      then (case subscript (sort xs) (py_int k) of Inl e \<Rightarrow> Inl e | Inr a \<Rightarrow> Inr (Fin a))
      else (case subscript (sort xs) (py_int k) of Inl e \<Rightarrow> Inl e
            | Inr a \<Rightarrow> (case subscript (sort xs) (min (py_int k + 1) (int (length xs) - 1)) of
                  Inl e \<Rightarrow> Inl e
                | Inr b \<Rightarrow> Inr (Fin (a + (k - real_of_int (py_int k)) * (b - a))))))"
  unfolding assms(2) using assms(1) by (simp add: percentile_def Let_def cong: sum.case_cong)

lemma percentile_formula:
  assumes ne: "xs \<noteq> []" and p: "0 \<le> p" "p \<le> 100"
  defines "k \<equiv> real (length xs - 1) * (p / 100)"
  shows "percentile xs p =
           Inr (Fin (sort xs ! nat \<lfloor>k\<rfloor> + (k - real_of_int \<lfloor>k\<rfloor>) * (sort xs ! nat \<lceil>k\<rceil> - sort xs ! nat \<lfloor>k\<rfloor>)))"
proof -
  let ?n = "length xs"
  let ?ys = "sort xs"
  have n: "0 < ?n" using ne by simp
  have k0: "0 \<le> k" using p by (simp add: k_def)
  have "k \<le> real (?n - 1) * 1"
    unfolding k_def using p by (intro mult_left_mono) auto
  then have k1: "k \<le> real (?n - 1)" by simp
  have f0: "0 \<le> \<lfloor>k\<rfloor>" using k0 by simp
  have "real_of_int \<lfloor>k\<rfloor> \<le> k" by (rule of_int_floor_le)
  with k1 have "real_of_int \<lfloor>k\<rfloor> \<le> real (?n - 1)" by linarith
  also have "real (?n - 1) = real_of_int (int ?n - 1)" using n by (cases "length xs") simp_all
  finally have f1: "\<lfloor>k\<rfloor> \<le> int ?n - 1" by (simp only: of_int_le_iff)
  have pyint: "py_int k = \<lfloor>k\<rfloor>" using k0 by (simp add: py_int_def)
  have kd: "k = real (length xs - 1) * (p / 100)" by (simp add: k_def)
  note pu = percentile_unfold [OF ne kd]
  have sub_f: "subscript ?ys \<lfloor>k\<rfloor> = Inr (?ys ! nat \<lfloor>k\<rfloor>)"
    using f0 f1 by (intro subscript_in_range) auto
  show ?thesis
  proof (cases "\<lfloor>k\<rfloor> = int ?n - 1")
    case True
    then have "of_int \<lfloor>k\<rfloor> = real (?n - 1)" using n by (cases "length xs") simp_all
    with k1 have "k = of_int \<lfloor>k\<rfloor>" using of_int_floor_le [of k] by linarith
    then have ceil: "\<lceil>k\<rceil> = \<lfloor>k\<rfloor>" by (metis ceiling_of_int)
    have "min (\<lfloor>k\<rfloor> + 1) (int ?n - 1) = \<lfloor>k\<rfloor>" using True by simp
    then show ?thesis
      using sub_f by (simp add: pu pyint ceil)
  next
    case False
    with f1 have lt: "\<lfloor>k\<rfloor> + 1 \<le> int ?n - 1" by simp
    then have c: "min (\<lfloor>k\<rfloor> + 1) (int ?n - 1) = \<lfloor>k\<rfloor> + 1" by simp
    have sub_c: "subscript ?ys (\<lfloor>k\<rfloor> + 1) = Inr (?ys ! nat (\<lfloor>k\<rfloor> + 1))"
      using f0 lt by (intro subscript_in_range) auto
    have val: "percentile xs p =
        Inr (Fin (?ys ! nat \<lfloor>k\<rfloor> + (k - real_of_int \<lfloor>k\<rfloor>) * (?ys ! nat (\<lfloor>k\<rfloor> + 1) - ?ys ! nat \<lfloor>k\<rfloor>)))"
      using sub_f sub_c c by (simp add: pu pyint)
    show ?thesis
    proof (cases "k = of_int \<lfloor>k\<rfloor>")
      case True
      then have "\<lceil>k\<rceil> = \<lfloor>k\<rfloor>" by (metis ceiling_of_int)
      with True val show ?thesis by simp
    next
      case False
      then have "\<lceil>k\<rceil> = \<lfloor>k\<rfloor> + 1" by (simp add: ceiling_altdef)
      with val show ?thesis by simp
    qed
  qed
qed

lemma sort_not_Nil: "xs \<noteq> [] \<Longrightarrow> sort xs \<noteq> []"
  by (metis length_sort length_0_conv)

lemma percentile_0: "xs \<noteq> [] \<Longrightarrow> percentile xs 0 = Inr (Fin (Min (set xs)))"
  using percentile_formula [of xs 0] sorted_nth_0_Min [of "sort xs"] sort_not_Nil [of xs] by simp

lemma percentile_100: 
  assumes "xs \<noteq> []" shows "percentile xs 100 = Inr (Fin (Max (set xs)))"
proof -
  have n: "0 < length xs" using assms by simp
  have "nat \<lfloor>real (length xs - 1)\<rfloor> = length (sort xs) - 1" by simp
  moreover have "\<lceil>real (length xs - 1)\<rceil> = \<lfloor>real (length xs - 1)\<rfloor>" by simp
  ultimately show ?thesis
    using percentile_formula [of xs 100] sorted_nth_last_Max [of "sort xs"] assms sort_not_Nil [of xs] by simp
qed

section \<open>Every step of a run keeps the invariant\<close>

lemma heap_tokens_insert: "heap_tokens (heap_insert e h) = ev_token e + heap_tokens h"
  by (induction h) (simp_all add: heap_tokens_def)

lemma set_heap_insert: "set (heap_insert e h) = insert e (set h)"
  by (induction h) auto

lemma sorted_heap_insert:
  "sorted (map ev_time h) \<Longrightarrow> sorted (map ev_time (heap_insert e h))"
  by (induction h) (auto simp: set_heap_insert ev_before_def)

lemma mset_queue_insert: "mset (queue_insert x q) = add_mset x (mset q)"
  by (induction q) simp_all

lemma queue_tokens_upd:
  "rs r = Some q \<Longrightarrow>
   queue_tokens (rs(r \<mapsto> q')) + mset (map rq_pid (put_queue q))
     = queue_tokens rs + mset (map rq_pid (put_queue q'))"
  by (cases r) (simp_all add: queue_tokens_def res_tokens_def)

lemma is_wait_ev_ok: "is_wait (pc p) \<Longrightarrow> ev_ok p t"
  by (auto simp: is_wait_def ev_ok_def)

subsection \<open>schedule\<close>

lemma schedule_frame [simp]:
  "now (schedule pr d w s) = now s"
  "procs (schedule pr d w s) = procs s"
  "arr_pid (schedule pr d w s) = arr_pid s"
  "res (schedule pr d w s) = res s"
  "log (schedule pr d w s) = log s"
  "rng (schedule pr d w s) = rng s"
  by (simp_all add: schedule_def)

lemma schedule_tokens:
  "tokens (schedule pr d w s) = (case w of EvArrivals \<Rightarrow> {#} | EvPatient pid \<Rightarrow> {#pid#}) + tokens s"
  by (simp add: tokens_def schedule_def heap_tokens_insert ev_token_def)

lemma heap_schedule:
  "heap (schedule pr d w s) =
     heap_insert \<lparr>ev_time = now s + d, ev_prio = pr, ev_id = eid s, ev_what = w\<rparr> (heap s)"
  by (simp add: schedule_def)

lemma inv_heap_insert: "inv_heap n h \<Longrightarrow> n \<le> ev_time e \<Longrightarrow> inv_heap n (heap_insert e h)"
  by (simp add: inv_heap_def sorted_heap_insert set_heap_insert)

lemma inv_ev_insert:
  "inv_ev pr h \<Longrightarrow>
   (\<And>pid. ev_what e = EvPatient pid \<Longrightarrow> \<exists>p. pr pid = Some p \<and> ev_ok p (ev_time e)) \<Longrightarrow>
   inv_ev pr (heap_insert e h)"
  by (auto simp: inv_ev_def set_heap_insert)

lemma set_proc_frame [simp]:
  "now (set_proc pid p s) = now s"
  "heap (set_proc pid p s) = heap s"
  "arr_pid (set_proc pid p s) = arr_pid s"
  "res (set_proc pid p s) = res s"
  "log (set_proc pid p s) = log s"
  "rng (set_proc pid p s) = rng s"
  "procs (set_proc pid p s) = (procs s)(pid \<mapsto> p)"
  "tokens (set_proc pid p s) = tokens s"
  by (simp_all add: set_proc_def tokens_def)


subsection \<open>pools\<close>

lemma heap_token_mem:
  "e \<in> set h \<Longrightarrow> ev_what e = EvPatient pid \<Longrightarrow> pid \<in># heap_tokens h"
  by (induction h) (auto simp: heap_tokens_def ev_token_def)

lemma res_tokens_sub: "rs r = Some q \<Longrightarrow> mset (map rq_pid (put_queue q)) \<subseteq># queue_tokens rs"
  by (cases r) (simp_all add: queue_tokens_def res_tokens_def)

lemma res_grant_tokens:
  "mset (map rq_pid (put_queue (fst (res_grant q)))) +
     (case snd (res_grant q) of None \<Rightarrow> {#} | Some y \<Rightarrow> {#rq_pid y#})
   = mset (map rq_pid (put_queue q))"
  by (simp add: res_grant_def split: list.splits)

lemma res_grant_mem: "snd (res_grant q) = Some y \<Longrightarrow> y \<in> set (put_queue q)"
  by (auto simp: res_grant_def split: list.splits if_splits)

lemma res_grant_rest: "x \<in> set (put_queue (fst (res_grant q))) \<Longrightarrow> x \<in> set (put_queue q)"
  by (auto simp: res_grant_def split: list.splits if_splits)

lemma granted_frame [simp]:
  "now (granted g s) = now s"
  "procs (granted g s) = procs s"
  "arr_pid (granted g s) = arr_pid s"
  "res (granted g s) = res s"
  "log (granted g s) = log s"
  "rng (granted g s) = rng s"
  by (simp_all add: granted_def split: option.splits)

lemma granted_tokens:
  "tokens (granted g s) = (case g of None \<Rightarrow> {#} | Some y \<Rightarrow> {#rq_pid y#}) + tokens s"
  by (simp add: granted_def schedule_tokens split: option.splits)

lemma update_pool_frame [simp]:
  "now (update_pool r qg s) = now s"
  "procs (update_pool r qg s) = procs s"
  "arr_pid (update_pool r qg s) = arr_pid s"
  "log (update_pool r qg s) = log s"
  "rng (update_pool r qg s) = rng s"
  "res (update_pool r qg s) = (res s)(r \<mapsto> fst qg)"
  by (simp_all add: update_pool_def)

lemma update_pool_tokens:
  assumes "res s r = Some q0"
  shows "tokens (update_pool r (res_grant q1) s) + mset (map rq_pid (put_queue q0))
           = tokens s + mset (map rq_pid (put_queue q1))"
proof -
  have "tokens (update_pool r (res_grant q1) s)
      = (case snd (res_grant q1) of None \<Rightarrow> {#} | Some y \<Rightarrow> {#rq_pid y#})
        + tokens (s\<lparr>res := (res s)(r \<mapsto> fst (res_grant q1))\<rparr>)"
    by (simp add: update_pool_def granted_tokens)
  then have "tokens (update_pool r (res_grant q1) s) + mset (map rq_pid (put_queue q0))
      = (case snd (res_grant q1) of None \<Rightarrow> {#} | Some y \<Rightarrow> {#rq_pid y#}) + heap_tokens (heap s)
        + (queue_tokens ((res s)(r \<mapsto> fst (res_grant q1))) + mset (map rq_pid (put_queue q0)))"
    by (simp add: tokens_def)
  also have "\<dots> = (case snd (res_grant q1) of None \<Rightarrow> {#} | Some y \<Rightarrow> {#rq_pid y#}) + heap_tokens (heap s)
        + (queue_tokens (res s) + mset (map rq_pid (put_queue (fst (res_grant q1)))))"
    by (simp only: queue_tokens_upd [of "res s" r q0, OF assms])
  also have "\<dots> = tokens s + (mset (map rq_pid (put_queue (fst (res_grant q1)))) +
       (case snd (res_grant q1) of None \<Rightarrow> {#} | Some y \<Rightarrow> {#rq_pid y#}))"
    by (simp add: tokens_def)
  finally show ?thesis by (simp only: res_grant_tokens)
qed

lemma update_pool_inv:
  assumes inv: "sim_inv P s"
    and r: "res s r = Some q0"
    and q1: "mset (map rq_pid (put_queue q1)) = mset (map rq_pid (put_queue q0)) + A"
    and A: "\<And>x. x \<in># A \<Longrightarrow> \<exists>p. procs s x = Some p \<and> is_wait (pc p)"
    and U: "\<And>x. count (tokens s + A) x \<le> 1"
  shows "sim_inv P (update_pool r (res_grant q1) s)"
    and "tokens (update_pool r (res_grant q1) s) = tokens s + A"
proof -
  let ?s' = "update_pool r (res_grant q1) s"
  have tok: "tokens ?s' = tokens s + A"
    using update_pool_tokens [OF r, of q1] q1 by simp
  show "tokens ?s' = tokens s + A" by (rule tok)
  have wait1: "\<exists>p. procs s x = Some p \<and> is_wait (pc p)" if "x \<in># mset (map rq_pid (put_queue q1))" for x
  proof -
    from that have "x \<in># mset (map rq_pid (put_queue q0)) + A" by (simp only: q1)
    then have "x \<in># mset (map rq_pid (put_queue q0)) \<or> x \<in># A" by (simp only: union_iff)
    then show ?thesis
    proof
      assume "x \<in># mset (map rq_pid (put_queue q0))"
      with res_tokens_sub [of "res s" r q0, OF r] have "x \<in># queue_tokens (res s)" by (rule mset_subset_eqD)
      with inv show ?thesis by (simp add: sim_inv_def inv_q_def)
    next
      assume "x \<in># A" then show ?thesis by (rule A)
    qed
  qed
  have verify: "((res ?s') Verify \<noteq> None) = (res s Verify \<noteq> None)"
    using r by (cases "r = Verify") auto
  have h: "inv_heap (now ?s') (heap ?s')"
    using inv
    by (auto simp: sim_inv_def update_pool_def granted_def heap_schedule inv_heap_insert
        split: option.splits)
  have e: "inv_ev (procs ?s') (heap ?s')"
  proof (cases "snd (res_grant q1)")
    case None
    with inv show ?thesis by (simp add: sim_inv_def update_pool_def granted_def)
  next
    case (Some y)
    have "rq_pid y \<in># mset (map rq_pid (put_queue q1))"
      using res_grant_mem [OF Some] by simp
    from wait1 [OF this] obtain p where p: "procs s (rq_pid y) = Some p" "is_wait (pc p)" by blast
    have "inv_ev (procs s)
       (heap_insert \<lparr>ev_time = now s + 0, ev_prio = NORMAL, ev_id = eid s, ev_what = EvPatient (rq_pid y)\<rparr> (heap s))"
      by (rule inv_ev_insert) (use inv p in \<open>auto simp: sim_inv_def is_wait_ev_ok\<close>)
    then show ?thesis using Some by (simp add: update_pool_def granted_def heap_schedule)
  qed
  have q: "inv_q (procs ?s') (res ?s')"
    unfolding inv_q_def
  proof (intro allI impI)
    fix x assume "x \<in># queue_tokens (res ?s')"
    then have "x \<in># queue_tokens ((res s)(r \<mapsto> fst (res_grant q1))) + mset (map rq_pid (put_queue q0))"
      by simp
    then have "x \<in># queue_tokens (res s) + mset (map rq_pid (put_queue (fst (res_grant q1))))"
      by (simp only: queue_tokens_upd [of "res s" r q0, OF r])
    then have "x \<in># queue_tokens (res s) \<or> x \<in># mset (map rq_pid (put_queue (fst (res_grant q1))))"
      by simp
    then show "\<exists>p. procs ?s' x = Some p \<and> is_wait (pc p)"
    proof
      assume "x \<in># queue_tokens (res s)"
      with inv show ?thesis by (simp add: sim_inv_def inv_q_def)
    next
      assume "x \<in># mset (map rq_pid (put_queue (fst (res_grant q1))))"
      then have "x \<in># mset (map rq_pid (put_queue q1))"
        using res_grant_rest [of _ q1] by auto
      from wait1 [OF this] show ?thesis by simp
    qed
  qed
  show "sim_inv P ?s'"
    unfolding sim_inv_def
    using h e q tok U inv verify by (simp add: sim_inv_def)
qed

lemma request_frame:
  assumes "request r prio pid s = Inr s'"
  shows "now s' = now s" "procs s' = procs s" "log s' = log s" "arr_pid s' = arr_pid s"
    "rng s' = rng s" "(res s' Verify = None) = (res s Verify = None)"
  using assms by (auto simp: request_def split: option.splits if_splits)

lemma release_frame:
  assumes "release r pid s = Inr s'"
  shows "now s' = now s" "procs s' = procs s" "log s' = log s" "arr_pid s' = arr_pid s"
    "rng s' = rng s" "(res s' Verify = None) = (res s Verify = None)"
  using assms by (auto simp: release_def split: option.splits if_splits)

lemma request_inv:
  assumes inv: "sim_inv P s"
    and req: "request r prio pid s = Inr s'"
    and fresh: "pid \<notin># tokens s"
    and p: "procs s pid = Some p" "is_wait (pc p)"
  shows "sim_inv P s'" and "tokens s' = add_mset pid (tokens s)"
proof -
  from req obtain q0 where r: "res s r = Some q0"
    and s': "s' = update_pool r (res_request prio pid q0) s"
    by (auto simp: request_def split: option.splits)
  let ?q1 = "q0\<lparr>put_queue := queue_insert \<lparr>rq_priority = prio, rq_seq = next_seq q0, rq_pid = pid\<rparr> (put_queue q0),
                 next_seq := next_seq q0 + 1\<rparr>"
  have s'': "s' = update_pool r (res_grant ?q1) s"
    by (simp add: s' res_request_def)
  have q1: "mset (map rq_pid (put_queue ?q1)) = mset (map rq_pid (put_queue q0)) + {#pid#}"
    by (simp add: mset_queue_insert)
  have A: "\<exists>p. procs s x = Some p \<and> is_wait (pc p)" if "x \<in># {#pid#}" for x
    using that p by simp
  have U: "count (tokens s + {#pid#}) x \<le> 1" for x
    using inv fresh by (auto simp: sim_inv_def not_in_iff)
  show "sim_inv P s'"
    unfolding s'' by (rule update_pool_inv(1) [OF inv r q1 A U])
  show "tokens s' = add_mset pid (tokens s)"
    unfolding s'' using update_pool_inv(2) [OF inv r q1 A U] by simp
qed

lemma release_inv:
  assumes inv: "sim_inv P s"
    and rel: "release r pid s = Inr s'"
  shows "sim_inv P s'" and "tokens s' = tokens s"
proof -
  from rel obtain q0 where r: "res s r = Some q0"
    and s': "s' = update_pool r (res_release pid q0) s"
    by (auto simp: release_def split: option.splits)
  let ?q1 = "q0\<lparr>users := remove1 pid (users q0)\<rparr>"
  have s'': "s' = update_pool r (res_grant ?q1) s"
    by (simp add: s' res_release_def)
  have q1: "mset (map rq_pid (put_queue ?q1)) = mset (map rq_pid (put_queue q0)) + {#}"
    by simp
  have A: "\<exists>p. procs s x = Some p \<and> is_wait (pc p)" if "x \<in># {#}" for x
    using that by simp
  have U: "count (tokens s + {#}) x \<le> 1" for x
    using inv by (auto simp: sim_inv_def)
  show "sim_inv P s'"
    unfolding s'' by (rule update_pool_inv(1) [OF inv r q1 A U])
  show "tokens s' = tokens s"
    unfolding s'' using update_pool_inv(2) [OF inv r q1 A U] by simp
qed

lemma timeout_frame:
  assumes "timeout d w s = Inr s'"
  shows "now s' = now s" "procs s' = procs s" "log s' = log s" "arr_pid s' = arr_pid s"
    "rng s' = rng s" "res s' = res s" "0 \<le> d"
  using assms by (auto simp: timeout_def split: if_splits)

lemma timeout_inv:
  assumes inv: "sim_inv P s"
    and tmo: "timeout d (EvPatient pid) s = Inr s'"
    and fresh: "pid \<notin># tokens s"
    and p: "procs s pid = Some p" "ev_ok p (now s + d)"
  shows "sim_inv P s'" and "tokens s' = add_mset pid (tokens s)"
proof -
  from tmo have d: "0 \<le> d" and s': "s' = schedule NORMAL d (EvPatient pid) s"
    by (auto simp: timeout_def split: if_splits)
  show tok: "tokens s' = add_mset pid (tokens s)"
    by (simp add: s' schedule_tokens)
  have U: "count (tokens s') x \<le> 1" for x
    using inv fresh by (auto simp: tok sim_inv_def not_in_iff)
  have h: "inv_heap (now s) (heap s')"
    unfolding s' heap_schedule using inv d by (intro inv_heap_insert) (auto simp: sim_inv_def)
  have e: "inv_ev (procs s) (heap s')"
    unfolding s' heap_schedule using inv p by (intro inv_ev_insert) (auto simp: sim_inv_def)
  show "sim_inv P s'"
    using inv U h e by (simp add: sim_inv_def s')
qed

lemma timeout_arrivals_inv:
  assumes inv: "sim_inv P s"
    and tmo: "timeout d EvArrivals s = Inr s'"
  shows "sim_inv P s'" and "tokens s' = tokens s"
proof -
  from tmo have d: "0 \<le> d" and s': "s' = schedule NORMAL d EvArrivals s"
    by (auto simp: timeout_def split: if_splits)
  show tok: "tokens s' = tokens s"
    by (simp add: s' schedule_tokens)
  have h: "inv_heap (now s) (heap s')"
    unfolding s' heap_schedule using inv d by (intro inv_heap_insert) (auto simp: sim_inv_def)
  have e: "inv_ev (procs s) (heap s')"
    unfolding s' heap_schedule using inv by (intro inv_ev_insert) (auto simp: sim_inv_def)
  show "sim_inv P s'"
    using inv tok h e by (simp add: sim_inv_def s')
qed

lemma rng_inv [simp]: "sim_inv P (s\<lparr>rng := g\<rparr>) = sim_inv P s"
  by (simp add: sim_inv_def tokens_def)

lemma rng_tokens [simp]: "tokens (s\<lparr>rng := g\<rparr>) = tokens s"
  by (simp add: tokens_def)

lemma set_proc_inv:
  assumes inv: "sim_inv P s"
    and fresh: "pid \<notin># tokens s"
    and ok: "proc_ok (now s) p'" "pid < arr_pid s"
    and nolog: "\<And>r. r \<in> set (patients (log s)) \<Longrightarrow> r_pid r \<noteq> pid"
  shows "sim_inv P (set_proc pid p' s)"
proof -
  have e: "inv_ev ((procs s)(pid \<mapsto> p')) (heap s)"
    unfolding inv_ev_def
  proof (intro ballI allI impI)
    fix e x assume ex: "e \<in> set (heap s)" "ev_what e = EvPatient x"
    then have "x \<in># tokens s" by (simp add: tokens_def heap_token_mem)
    with fresh have "x \<noteq> pid" by auto
    with inv ex show "\<exists>p. ((procs s)(pid \<mapsto> p')) x = Some p \<and> ev_ok p (ev_time e)"
      by (auto simp: sim_inv_def inv_ev_def)
  qed
  have q: "inv_q ((procs s)(pid \<mapsto> p')) (res s)"
    unfolding inv_q_def
  proof (intro allI impI)
    fix x assume "x \<in># queue_tokens (res s)"
    then have x: "x \<in># tokens s" by (simp add: tokens_def)
    with fresh have "x \<noteq> pid" by auto
    with inv \<open>x \<in># queue_tokens (res s)\<close> show "\<exists>p. ((procs s)(pid \<mapsto> p')) x = Some p \<and> is_wait (pc p)"
      by (auto simp: sim_inv_def inv_q_def)
  qed
  have pr: "inv_proc (now s) (arr_pid s) ((procs s)(pid \<mapsto> p'))"
    using inv ok by (auto simp: sim_inv_def inv_proc_def)
  have lg: "inv_log (res s Verify \<noteq> None) ((procs s)(pid \<mapsto> p')) (log s)"
    using inv nolog by (auto simp: sim_inv_def inv_log_def)
  show ?thesis
    using inv e q pr lg by (simp add: sim_inv_def)
qed

lemma proc_ok_mono: "proc_ok n p \<Longrightarrow> n \<le> n' \<Longrightarrow> proc_ok n' p"
  by (auto simp: proc_ok_def split: ppc.splits)

lemma pop_inv:
  assumes inv: "sim_inv P s" and h: "heap s = e # es"
  shows "sim_inv P (s\<lparr>now := ev_time e, heap := es\<rparr>)"
    and "tokens s = ev_token e + tokens (s\<lparr>now := ev_time e, heap := es\<rparr>)"
    and "ev_what e = EvPatient pid \<Longrightarrow> \<exists>p. procs s pid = Some p \<and> ev_ok p (ev_time e)"
proof -
  let ?s' = "s\<lparr>now := ev_time e, heap := es\<rparr>"
  show tok: "tokens s = ev_token e + tokens ?s'"
    by (simp add: tokens_def h heap_tokens_def)
  from inv h have le: "now s \<le> ev_time e" by (simp add: sim_inv_def inv_heap_def)
  have U: "count (tokens ?s') x \<le> 1" for x
  proof -
    have "count (tokens ?s') x \<le> count (tokens s) x" by (simp add: tok)
    also have "\<dots> \<le> 1" using inv by (simp add: sim_inv_def)
    finally show ?thesis .
  qed
  have hp: "inv_heap (ev_time e) es"
    using inv h by (auto simp: sim_inv_def inv_heap_def)
  have ev: "inv_ev (procs s) es"
    using inv h by (auto simp: sim_inv_def inv_ev_def)
  have pr: "inv_proc (ev_time e) (arr_pid s) (procs s)"
    using inv le by (auto simp: sim_inv_def inv_proc_def intro: proc_ok_mono)
  show "sim_inv P ?s'"
    using inv U hp ev pr by (simp add: sim_inv_def)
  show "\<exists>p. procs s pid = Some p \<and> ev_ok p (ev_time e)" if "ev_what e = EvPatient pid"
    using inv h that by (auto simp: sim_inv_def inv_ev_def)
qed

lemma heap_token_ex:
  "pid \<in># heap_tokens h \<Longrightarrow> \<exists>e\<in>set h. ev_what e = EvPatient pid"
  by (induction h) (auto simp: heap_tokens_def ev_token_def split: ev.splits)

lemma token_has_proc:
  assumes "sim_inv P s" "x \<in># tokens s"
  shows "\<exists>p. procs s x = Some p"
proof -
  from assms(2) have "x \<in># heap_tokens (heap s) \<or> x \<in># queue_tokens (res s)"
    by (simp add: tokens_def)
  then show ?thesis
  proof
    assume "x \<in># heap_tokens (heap s)"
    then obtain e where "e \<in> set (heap s)" "ev_what e = EvPatient x" by (blast dest: heap_token_ex)
    with assms(1) show ?thesis unfolding sim_inv_def inv_ev_def by blast
  next
    assume "x \<in># queue_tokens (res s)"
    with assms(1) show ?thesis by (auto simp: sim_inv_def inv_q_def)
  qed
qed

lemma not_logged:
  assumes "sim_inv P s" "procs s pid = Some p" "pc p \<noteq> PDone" "r \<in> set (patients (log s))"
  shows "r_pid r \<noteq> pid"
  using assms by (auto simp: sim_inv_def inv_log_def)

lemma proc_facts:
  assumes "sim_inv P s" "procs s pid = Some p"
  shows "proc_ok (now s) p" "pid < arr_pid s"
  using assms by (auto simp: sim_inv_def inv_proc_def)

lemma patient_arrive_inv:
  assumes inv: "sim_inv P s" and fresh: "pid \<notin># tokens s"
    and p: "procs s pid = Some p" and pc: "pc p = PInit"
    and run: "patient_arrive pid p s = Inr s'"
  shows "sim_inv P s'"
proof -
  let ?p1 = "p\<lparr>arrival_time := now s, q_start := now s, pc := PWaitReg\<rparr>"
  let ?s1 = "set_proc pid ?p1 s"
  from run have req: "request Reg (priority p) pid ?s1 = Inr s'"
    by (simp add: patient_arrive_def)
  have inv1: "sim_inv P ?s1"
    by (rule set_proc_inv [OF inv fresh])
      (use proc_facts [OF inv p] not_logged [OF inv p] pc in \<open>auto simp: proc_ok_def\<close>)
  show ?thesis
    by (rule request_inv(1) [OF inv1 req, of ?p1]) (use fresh in \<open>auto simp: is_wait_def\<close>)
qed

lemma patient_reg_begin_inv:
  assumes inv: "sim_inv P s" and fresh: "pid \<notin># tokens s"
    and p: "procs s pid = Some p" and pc: "pc p = PWaitReg"
    and run: "patient_reg_begin L P pid p s = Inr s'"
  shows "sim_inv P s'"
proof -
  obtain service g where d: "get_service_time L (registration (service_time P)) (rng s) = (service, g)"
    by fastforce
  let ?p1 = "p\<lparr>wait_reg := now s - q_start p, service_reg := service, pc := PServReg\<rparr>"
  let ?s1 = "set_proc pid ?p1 (s\<lparr>rng := g\<rparr>)"
  from run d have t: "timeout service (EvPatient pid) ?s1 = Inr s'"
    by (simp add: patient_reg_begin_def)
  from timeout_frame(7) [OF t] have sv: "0 \<le> service" .
  from proc_facts(1) [OF inv p] pc have pok: "q_start p = arrival_time p" "q_start p \<le> now s"
    by (auto simp: proc_ok_def)
  have inv1: "sim_inv P ?s1"
    by (rule set_proc_inv)
      (use inv fresh proc_facts [OF inv p] not_logged [OF inv p] pc pok sv in
        \<open>auto simp: proc_ok_def nn_reg_def\<close>)
  show ?thesis
    by (rule timeout_inv(1) [OF inv1 t, of ?p1])
      (use fresh pok in \<open>auto simp: ev_ok_def acc_reg_def\<close>)
qed

lemma patient_reg_end_inv:
  assumes inv: "sim_inv P s" and fresh: "pid \<notin># tokens s"
    and p: "procs s pid = Some p" and pc: "pc p = PServReg" and ev: "ev_ok p (now s)"
    and run: "patient_reg_end pid p s = Inr s'"
  shows "sim_inv P s'"
proof -
  from run obtain s1 where rel: "release Reg pid s = Inr s1"
    and req: "request Phleb (priority p) pid (set_proc pid (p\<lparr>q_start := now s1, pc := PWaitSample\<rparr>) s1) = Inr s'"
    by (auto simp: patient_reg_end_def split: sum.splits)
  let ?p1 = "p\<lparr>q_start := now s1, pc := PWaitSample\<rparr>"
  note fr = release_frame [OF rel]
  have inv1: "sim_inv P s1" and tok1: "tokens s1 = tokens s"
    using release_inv [OF inv rel] by auto
  have p1: "procs s1 pid = Some p" using p fr by simp
  have inv2: "sim_inv P (set_proc pid ?p1 s1)"
    by (rule set_proc_inv [OF inv1])
      (use fresh tok1 proc_facts [OF inv p] not_logged [OF inv1 p1] pc ev fr in
        \<open>auto simp: proc_ok_def ev_ok_def nn_reg_def acc_reg_def\<close>)
  show ?thesis
    by (rule request_inv(1) [OF inv2 req, of ?p1]) (use fresh tok1 in \<open>auto simp: is_wait_def\<close>)
qed


lemma patient_sample_begin_inv:
  assumes inv: "sim_inv P s" and fresh: "pid \<notin># tokens s"
    and p: "procs s pid = Some p" and pc: "pc p = PWaitSample"
    and run: "patient_sample_begin L P pid p s = Inr s'"
  shows "sim_inv P s'"
proof -
  obtain service g where d: "get_service_time L (sampling (service_time P)) (rng s) = (service, g)"
    by fastforce
  let ?p1 = "p\<lparr>wait_sample := now s - q_start p, service_sample := service, pc := PServSample\<rparr>"
  let ?s1 = "set_proc pid ?p1 (s\<lparr>rng := g\<rparr>)"
  from run d have t: "timeout service (EvPatient pid) ?s1 = Inr s'"
    by (simp add: patient_sample_begin_def)
  from timeout_frame(7) [OF t] have sv: "0 \<le> service" .
  from proc_facts(1) [OF inv p] pc have pok: "nn_reg p" "q_start p = acc_reg p" "q_start p \<le> now s"
    by (auto simp: proc_ok_def)
  have inv1: "sim_inv P ?s1"
    by (rule set_proc_inv)
      (use inv fresh proc_facts [OF inv p] not_logged [OF inv p] pc pok sv in
        \<open>auto simp: proc_ok_def nn_reg_def nn_sample_def\<close>)
  show ?thesis
    by (rule timeout_inv(1) [OF inv1 t, of ?p1])
      (use fresh pok in \<open>auto simp: ev_ok_def acc_reg_def acc_sample_def\<close>)
qed

lemma patient_sample_end_inv:
  assumes inv: "sim_inv P s" and fresh: "pid \<notin># tokens s"
    and p: "procs s pid = Some p" and pc: "pc p = PServSample" and ev: "ev_ok p (now s)"
    and run: "patient_sample_end L P pid p s = Inr s'"
  shows "sim_inv P s'"
proof -
  from run obtain s1 service g where rel: "release Phleb pid s = Inr s1"
    and req: "request (machine_of (test_type p)) (priority p) pid
        (set_proc pid (p\<lparr>q_start := now s1, service_test := service, pc := PWaitMachine\<rparr>)
           (s1\<lparr>rng := g\<rparr>)) = Inr s'"
    by (auto simp: patient_sample_end_def split: sum.splits prod.splits)
  let ?p1 = "p\<lparr>q_start := now s1, service_test := service, pc := PWaitMachine\<rparr>"
  note fr = release_frame [OF rel]
  have inv1: "sim_inv P s1" and tok1: "tokens s1 = tokens s"
    using release_inv [OF inv rel] by auto
  have p1: "procs s1 pid = Some p" using p fr by simp
  have inv2: "sim_inv P (set_proc pid ?p1 (s1\<lparr>rng := g\<rparr>))"
    by (rule set_proc_inv)
      (use inv1 fresh tok1 proc_facts [OF inv p] not_logged [OF inv1 p1] pc ev fr in
        \<open>auto simp: proc_ok_def ev_ok_def nn_reg_def nn_sample_def acc_reg_def acc_sample_def\<close>)
  show ?thesis
    by (rule request_inv(1) [OF inv2 req, of ?p1]) (use fresh tok1 in \<open>auto simp: is_wait_def\<close>)
qed

lemma patient_test_begin_inv:
  assumes inv: "sim_inv P s" and fresh: "pid \<notin># tokens s"
    and p: "procs s pid = Some p" and pc: "pc p = PWaitMachine"
    and run: "patient_test_begin pid p s = Inr s'"
  shows "sim_inv P s'"
proof -
  let ?p1 = "p\<lparr>wait_machine := now s - q_start p, pc := PServMachine\<rparr>"
  let ?s1 = "set_proc pid ?p1 s"
  from run have t: "timeout (service_test p) (EvPatient pid) ?s1 = Inr s'"
    by (simp add: patient_test_begin_def)
  from timeout_frame(7) [OF t] have sv: "0 \<le> service_test p" .
  from proc_facts(1) [OF inv p] pc have pok: "nn_sample p" "q_start p = acc_sample p" "q_start p \<le> now s"
    by (auto simp: proc_ok_def)
  have inv1: "sim_inv P ?s1"
    by (rule set_proc_inv)
      (use inv fresh proc_facts [OF inv p] not_logged [OF inv p] pc pok sv in
        \<open>auto simp: proc_ok_def nn_reg_def nn_sample_def nn_test_def\<close>)
  show ?thesis
    by (rule timeout_inv(1) [OF inv1 t, of ?p1])
      (use fresh pok in \<open>auto simp: ev_ok_def acc_reg_def acc_sample_def acc_test_def\<close>)
qed

lemma patient_verify_begin_inv:
  assumes inv: "sim_inv P s" and fresh: "pid \<notin># tokens s"
    and p: "procs s pid = Some p" and pc: "pc p = PWaitVerify"
    and run: "patient_verify_begin L P pid p s = Inr s'"
  shows "sim_inv P s'"
proof -
  obtain service g where d: "get_service_time L (verification (service_time P)) (rng s) = (service, g)"
    by fastforce
  let ?p1 = "p\<lparr>wait_verify := now s - q_start p, service_verify := service, pc := PServVerify\<rparr>"
  let ?s1 = "set_proc pid ?p1 (s\<lparr>rng := g\<rparr>)"
  from run d have t: "timeout service (EvPatient pid) ?s1 = Inr s'"
    by (simp add: patient_verify_begin_def)
  from timeout_frame(7) [OF t] have sv: "0 \<le> service" .
  from proc_facts(1) [OF inv p] pc have pok: "nn_test p" "q_start p = acc_test p" "q_start p \<le> now s"
    by (auto simp: proc_ok_def)
  have inv1: "sim_inv P ?s1"
    by (rule set_proc_inv)
      (use inv fresh proc_facts [OF inv p] not_logged [OF inv p] pc pok sv in
        \<open>auto simp: proc_ok_def nn_reg_def nn_sample_def nn_test_def nn_verify_def\<close>)
  show ?thesis
    by (rule timeout_inv(1) [OF inv1 t, of ?p1])
      (use fresh pok in \<open>auto simp: ev_ok_def acc_reg_def acc_sample_def acc_test_def acc_verify_def\<close>)
qed

subsection \<open>finishing\<close>

lemma inv_ev_upd:
  assumes "inv_ev pr h" "pid \<notin># heap_tokens h"
  shows "inv_ev (pr(pid \<mapsto> p')) h"
  unfolding inv_ev_def
proof (intro ballI allI impI)
  fix e x assume ex: "e \<in> set h" "ev_what e = EvPatient x"
  then have "x \<in># heap_tokens h" by (simp add: heap_token_mem)
  with assms(2) have "x \<noteq> pid" by auto
  with assms(1) ex show "\<exists>p. (pr(pid \<mapsto> p')) x = Some p \<and> ev_ok p (ev_time e)"
    by (auto simp: inv_ev_def)
qed

lemma inv_q_upd:
  assumes "inv_q pr rs" "pid \<notin># queue_tokens rs"
  shows "inv_q (pr(pid \<mapsto> p')) rs"
  using assms by (auto simp: inv_q_def)

lemma warm_ok_append:
  assumes "warm_ok P v lg"
  shows "warm_ok P v
     (if warm_up P \<le> r_arrival r
      then lg\<lparr>patients := patients lg @ [r],
              log_wait_reg := log_wait_reg lg @ [r_wait_reg r],
              log_wait_sample := log_wait_sample lg @ [r_wait_sample r],
              log_wait_machine := log_wait_machine lg @ [r_wait_machine r],
              log_wait_verify := (if v then log_wait_verify lg @ [r_wait_verify r] else log_wait_verify lg),
              log_system_time := log_system_time lg @ [r_system_time r]\<rparr>
      else lg\<lparr>patients := patients lg @ [r]\<rparr>)"
  using assms by (simp add: warm_ok_def counted_def)

lemma patient_finish_inv:
  assumes inv: "sim_inv P s" and fresh: "pid \<notin># tokens s"
    and old: "procs s pid = Some p0" "pc p0 \<noteq> PDone"
    and nn: "nn_test p" "0 \<le> wait_verify p"
    and sv: "if res s Verify \<noteq> None then 0 \<le> service_verify p else wait_verify p = 0"
    and t: "now s = acc_test p + wait_verify p + (if res s Verify \<noteq> None then service_verify p else 0)"
  shows "sim_inv P (patient_finish P pid p s)"
proof -
  let ?v = "res s Verify \<noteq> None"
  let ?r = "\<lparr>r_pid = pid, r_arrival = arrival_time p, r_finish = now s,
             r_priority = priority p, r_test_type = test_type p,
             r_wait_reg = wait_reg p, r_wait_sample = wait_sample p,
             r_wait_machine = wait_machine p, r_wait_verify = wait_verify p,
             r_system_time = now s - arrival_time p\<rparr>"
  let ?lg = "(if warm_up P \<le> r_arrival ?r
      then (log s)\<lparr>patients := patients (log s) @ [?r],
              log_wait_reg := log_wait_reg (log s) @ [r_wait_reg ?r],
              log_wait_sample := log_wait_sample (log s) @ [r_wait_sample ?r],
              log_wait_machine := log_wait_machine (log s) @ [r_wait_machine ?r],
              log_wait_verify := (if ?v then log_wait_verify (log s) @ [r_wait_verify ?r] else log_wait_verify (log s)),
              log_system_time := log_system_time (log s) @ [r_system_time ?r]\<rparr>
      else (log s)\<lparr>patients := patients (log s) @ [?r]\<rparr>)"
  let ?p' = "p\<lparr>pc := PDone\<rparr>"
  have fin: "patient_finish P pid p s = set_proc pid ?p' (s\<lparr>log := ?lg\<rparr>)"
    by (simp add: patient_finish_def Let_def)
  have pats: "patients ?lg = patients (log s) @ [?r]" by simp
  have cnts: "counts ?lg = counts (log s)" by simp
  from fresh have f1: "pid \<notin># heap_tokens (heap s)" and f2: "pid \<notin># queue_tokens (res s)"
    by (auto simp: tokens_def)
  have e: "inv_ev ((procs s)(pid \<mapsto> ?p')) (heap s)"
    using inv f1 by (intro inv_ev_upd) (auto simp: sim_inv_def)
  have q: "inv_q ((procs s)(pid \<mapsto> ?p')) (res s)"
    using inv f2 by (intro inv_q_upd) (auto simp: sim_inv_def)
  have pr: "inv_proc (now s) (arr_pid s) ((procs s)(pid \<mapsto> ?p'))"
    using inv proc_facts(2) [OF inv old(1)] by (auto simp: sim_inv_def inv_proc_def proc_ok_def)
  have rec: "rec_ok ?v ?r ?p'"
    using nn sv t by (auto simp: rec_ok_def nn_test_def nn_sample_def nn_reg_def acc_test_def acc_sample_def acc_reg_def)
  have notin: "r_pid r \<noteq> pid" if "r \<in> set (patients (log s))" for r
    using not_logged [OF inv old that] .
  have lg: "inv_log ?v ((procs s)(pid \<mapsto> ?p')) ?lg"
    unfolding inv_log_def pats
  proof (intro conjI ballI)
    fix r assume "r \<in> set (patients (log s) @ [?r])"
    then consider "r \<in> set (patients (log s))" | "r = ?r" by auto
    then show "\<exists>pa. ((procs s)(pid \<mapsto> ?p')) (r_pid r) = Some pa \<and> pc pa = PDone \<and> rec_ok ?v r pa"
    proof cases
      case 1
      with inv notin [OF 1] show ?thesis by (auto simp: sim_inv_def inv_log_def)
    next
      case 2
      with rec show ?thesis by simp
    qed
  next
    show "distinct (map r_pid (patients (log s) @ [?r]))"
      using inv notin by (auto simp: sim_inv_def inv_log_def)
  qed
  have cn: "inv_cnt (arr_pid s) ?lg"
    using inv unfolding inv_cnt_def cnts by (simp add: sim_inv_def inv_cnt_def)
  have w: "warm_ok P ?v ?lg"
    using inv warm_ok_append [of P ?v "log s" ?r] by (simp add: sim_inv_def)
  show ?thesis
    unfolding fin sim_inv_def
    using inv e q pr lg cn w by (simp add: sim_inv_def tokens_def)
qed


lemma patient_test_end_inv:
  assumes inv: "sim_inv P s" and fresh: "pid \<notin># tokens s"
    and p: "procs s pid = Some p" and pc: "pc p = PServMachine" and ev: "ev_ok p (now s)"
    and run: "patient_test_end P pid p s = Inr s'"
  shows "sim_inv P s'"
proof -
  from run obtain s1 where rel: "release (machine_of (test_type p)) pid s = Inr s1"
    and rest: "(if res s1 Verify \<noteq> None
           then request Verify (priority p) pid
                  (set_proc pid (p\<lparr>wait_verify := 0, q_start := now s1, pc := PWaitVerify\<rparr>) s1)
           else Inr (patient_finish P pid (p\<lparr>wait_verify := 0\<rparr>) s1)) = Inr s'"
    by (auto simp: patient_test_end_def split: sum.splits)
  note fr = release_frame [OF rel]
  have inv1: "sim_inv P s1" and tok1: "tokens s1 = tokens s"
    using release_inv [OF inv rel] by auto
  have p1: "procs s1 pid = Some p" using p fr by simp
  from proc_facts(1) [OF inv p] pc ev have pok: "nn_test p" "now s = acc_test p"
    by (auto simp: proc_ok_def ev_ok_def)
  show ?thesis
  proof (cases "res s1 Verify \<noteq> None")
    case True
    let ?p1 = "p\<lparr>wait_verify := 0, q_start := now s1, pc := PWaitVerify\<rparr>"
    from rest True have req: "request Verify (priority p) pid (set_proc pid ?p1 s1) = Inr s'"
      by simp
    have inv2: "sim_inv P (set_proc pid ?p1 s1)"
      by (rule set_proc_inv [OF inv1])
        (use fresh tok1 proc_facts [OF inv p] not_logged [OF inv1 p1] pc pok fr in
          \<open>auto simp: proc_ok_def nn_reg_def nn_sample_def nn_test_def acc_reg_def acc_sample_def acc_test_def\<close>)
    show ?thesis
      by (rule request_inv(1) [OF inv2 req, of ?p1]) (use fresh tok1 in \<open>auto simp: is_wait_def\<close>)
  next
    case False
    with rest have s': "s' = patient_finish P pid (p\<lparr>wait_verify := 0\<rparr>) s1" by simp
    show ?thesis
      unfolding s'
      by (rule patient_finish_inv [OF inv1 _ p1])
        (use fresh tok1 pc pok fr False in
          \<open>auto simp: nn_reg_def nn_sample_def nn_test_def acc_reg_def acc_sample_def acc_test_def\<close>)
  qed
qed

lemma patient_verify_end_inv:
  assumes inv: "sim_inv P s" and fresh: "pid \<notin># tokens s"
    and p: "procs s pid = Some p" and pc: "pc p = PServVerify" and ev: "ev_ok p (now s)"
    and run: "patient_verify_end P pid p s = Inr s'"
  shows "sim_inv P s'"
proof -
  from run obtain s1 where rel: "release Verify pid s = Inr s1"
    and s': "s' = patient_finish P pid p s1"
    by (auto simp: patient_verify_end_def split: sum.splits)
  note fr = release_frame [OF rel]
  have inv1: "sim_inv P s1" and tok1: "tokens s1 = tokens s"
    using release_inv [OF inv rel] by auto
  have p1: "procs s1 pid = Some p" using p fr by simp
  from rel have v: "res s1 Verify \<noteq> None"
    by (auto simp: release_def split: option.splits)
  from proc_facts(1) [OF inv p] pc ev have pok: "nn_verify p" "now s = acc_verify p"
    by (auto simp: proc_ok_def ev_ok_def)
  show ?thesis
    unfolding s'
    by (rule patient_finish_inv [OF inv1 _ p1])
      (use fresh tok1 pc pok fr v in \<open>auto simp: nn_verify_def acc_verify_def\<close>)
qed

lemma patient_inv:
  assumes inv: "sim_inv P s" and fresh: "pid \<notin># tokens s"
    and ev: "\<And>p. procs s pid = Some p \<Longrightarrow> ev_ok p (now s)"
    and run: "patient L P pid s = Inr s'"
  shows "sim_inv P s'"
proof (cases "procs s pid")
  case None
  with run inv show ?thesis by (simp add: patient_def)
next
  case (Some p)
  note e = ev [OF Some]
  show ?thesis
  proof (cases "pc p")
    case PInit
    with run Some show ?thesis by (auto simp: patient_def intro: patient_arrive_inv [OF inv fresh Some])
  next
    case PWaitReg
    with run Some show ?thesis by (auto simp: patient_def intro: patient_reg_begin_inv [OF inv fresh Some])
  next
    case PServReg
    with run Some e show ?thesis by (auto simp: patient_def intro: patient_reg_end_inv [OF inv fresh Some])
  next
    case PWaitSample
    with run Some show ?thesis by (auto simp: patient_def intro: patient_sample_begin_inv [OF inv fresh Some])
  next
    case PServSample
    with run Some e show ?thesis by (auto simp: patient_def intro: patient_sample_end_inv [OF inv fresh Some])
  next
    case PWaitMachine
    with run Some show ?thesis by (auto simp: patient_def intro: patient_test_begin_inv [OF inv fresh Some])
  next
    case PServMachine
    with run Some e show ?thesis by (auto simp: patient_def intro: patient_test_end_inv [OF inv fresh Some])
  next
    case PWaitVerify
    with run Some show ?thesis by (auto simp: patient_def intro: patient_verify_begin_inv [OF inv fresh Some])
  next
    case PServVerify
    with run Some e show ?thesis by (auto simp: patient_def intro: patient_verify_end_inv [OF inv fresh Some])
  next
    case PDone
    with run Some inv show ?thesis by (simp add: patient_def)
  qed
qed

subsection \<open>arrivals\<close>

lemma count_arrival_sums:
  "cnt_priority (count_arrival prio tt c) + cnt_normal (count_arrival prio tt c)
     = cnt_priority c + cnt_normal c + 1"
  "cnt_fast (count_arrival prio tt c) + cnt_slow (count_arrival prio tt c)
     = cnt_fast c + cnt_slow c + 1"
  by (simp_all add: count_arrival_def Let_def)

lemma arrivals_inv:
  assumes inv: "sim_inv P s" and run: "arrivals L P s = Inr s'"
  shows "sim_inv P s'"
proof -
  obtain prio g1 where d1: "sample_priority L (p_priority P) (rng s) = (prio, g1)" by fastforce
  obtain tt g2 where d2: "sample_test_type L (p_fast P) g1 = (tt, g2)" by fastforce
  let ?pid = "arr_pid s"
  let ?lg = "(log s)\<lparr>counts := count_arrival prio tt (counts (log s))\<rparr>"
  let ?s1 = "s\<lparr>rng := g2, log := ?lg\<rparr>"
  let ?s2 = "schedule URGENT 0 (EvPatient ?pid) (set_proc ?pid (new_patient prio tt) ?s1)"
  let ?s3 = "?s2\<lparr>arr_pid := ?pid + 1\<rparr>"
  from run d1 d2 obtain iat g3 where
    t: "timeout iat EvArrivals (?s3\<lparr>rng := g3\<rparr>) = Inr s'"
    by (auto simp: arrivals_def Let_def split: sum.splits prod.splits)
  have fresh: "?pid \<notin># tokens s"
  proof
    assume "?pid \<in># tokens s"
    from token_has_proc [OF inv this] obtain p where "procs s ?pid = Some p" ..
    from proc_facts(2) [OF inv this] show False by simp
  qed
  then have f1: "?pid \<notin># heap_tokens (heap s)" and f2: "?pid \<notin># queue_tokens (res s)"
    by (auto simp: tokens_def)
  have none: "procs s ?pid = None"
  proof (cases "procs s ?pid")
    case (Some p)
    from proc_facts(2) [OF inv this] show ?thesis by simp
  qed simp
  let ?pr = "(procs s)(?pid \<mapsto> new_patient prio tt)"
  let ?e = "\<lparr>ev_time = now s + 0, ev_prio = URGENT, ev_id = eid s, ev_what = EvPatient ?pid\<rparr>"
  have hp: "heap ?s3 = heap_insert ?e (heap s)" by (simp add: heap_schedule set_proc_def)
  have h: "inv_heap (now s) (heap_insert ?e (heap s))"
    using inv by (intro inv_heap_insert) (auto simp: sim_inv_def)
  have tok: "tokens ?s3 = add_mset ?pid (tokens s)"
    by (simp add: tokens_def heap_schedule heap_tokens_insert ev_token_def set_proc_def)
  have U: "count (tokens ?s3) x \<le> 1" for x
  proof -
    have "count (tokens ?s3) x = count (add_mset ?pid (tokens s)) x" by (simp only: tok)
    then show ?thesis using inv fresh by (auto simp: sim_inv_def not_in_iff)
  qed
  have e: "inv_ev ?pr (heap_insert ?e (heap s))"
    by (rule inv_ev_insert)
      (use inv f1 in \<open>auto simp: sim_inv_def ev_ok_def new_patient_def intro: inv_ev_upd\<close>)
  have q: "inv_q ?pr (res s)"
    using inv f2 by (intro inv_q_upd) (auto simp: sim_inv_def)
  have pr: "inv_proc (now s) (?pid + 1) ?pr"
    using inv by (auto simp: sim_inv_def inv_proc_def proc_ok_def new_patient_def less_Suc_eq)
  have lg: "inv_log (res s Verify \<noteq> None) ?pr ?lg"
    using inv none by (auto simp: sim_inv_def inv_log_def)
  have cn: "inv_cnt (?pid + 1) ?lg"
    using inv by (simp add: sim_inv_def inv_cnt_def count_arrival_sums)
  have w: "warm_ok P (res s Verify \<noteq> None) ?lg"
    using inv by (simp add: sim_inv_def warm_ok_def)
  have inv3: "sim_inv P ?s3"
    unfolding sim_inv_def using U h e q pr lg cn w hp by (simp add: set_proc_def)
  then have "sim_inv P (?s3\<lparr>rng := g3\<rparr>)" by simp
  from timeout_arrivals_inv(1) [OF this t] show ?thesis .
qed

subsection \<open>the run\<close>

lemma step_inv:
  assumes inv: "sim_inv P s" and h: "heap s = e # es"
    and run: "step L P (ev_what e) (s\<lparr>now := ev_time e, heap := es\<rparr>) = Inr s'"
  shows "sim_inv P s'"
proof -
  let ?s0 = "s\<lparr>now := ev_time e, heap := es\<rparr>"
  note pop = pop_inv [OF inv h]
  show ?thesis
  proof (cases "ev_what e")
    case EvArrivals
    with run pop(1) show ?thesis by (auto simp: step_def intro: arrivals_inv)
  next
    case (EvPatient pid)
    from pop(2) EvPatient have "tokens s = add_mset pid (tokens ?s0)" by (simp add: ev_token_def)
    moreover from inv have "count (tokens s) pid \<le> 1" by (simp add: sim_inv_def)
    ultimately have fresh: "pid \<notin># tokens ?s0" by (auto simp: not_in_iff)
    have ev: "ev_ok p (now ?s0)" if "procs ?s0 pid = Some p" for p
      using pop(3) [OF EvPatient] that by auto
    from run EvPatient have "patient L P pid ?s0 = Inr s'" by (simp add: step_def)
    from patient_inv [OF pop(1) fresh ev this] show ?thesis .
  qed
qed

lemma env_run_inv:
  "sim_inv P s \<Longrightarrow> env_run L P n s = Some (Inr s') \<Longrightarrow> sim_inv P s'"
proof (induction n arbitrary: s)
  case 0
  then show ?case by simp
next
  case (Suc n)
  show ?case
  proof (cases "heap s")
    case Nil
    with Suc.prems show ?thesis by simp
  next
    case (Cons e es)
    show ?thesis
    proof (cases "sim_time P \<le> ev_time e")
      case True
      with Suc.prems Cons show ?thesis by simp
    next
      case False
      with Suc.prems(2) Cons obtain s1 where
        st: "step L P (ev_what e) (s\<lparr>now := ev_time e, heap := es\<rparr>) = Inr s1"
        and rest: "env_run L P n s1 = Some (Inr s')"
        by (auto split: sum.splits)
      from step_inv [OF Suc.prems(1) Cons st] have "sim_inv P s1" .
      from Suc.IH [OF this rest] show ?thesis .
    qed
  qed
qed

lemma make_resources_empty:
  "make_resources P = Inr rs \<Longrightarrow> queue_tokens rs = {#}"
  by (auto simp: make_resources_def new_resource_def queue_tokens_def res_tokens_def Let_def
      split: if_splits)

lemma simulate_inv:
  assumes "simulate L fuel P seed g = Some (Inr s)"
  shows "sim_inv P s"
proof -
  from assms obtain rs where rs: "make_resources P = Inr rs"
    by (auto simp: simulate_def Let_def split: sum.splits)
  let ?s0 = "\<lparr>now = 0, eid = 0, heap = [], procs = (\<lambda>pid. None), arr_pid = 0, res = rs,
                log = make_log, rng = rnd_seed L seed\<rparr>"
  let ?s1 = "schedule URGENT 0 EvArrivals ?s0"
  from assms rs have run: "env_run L P fuel ?s1 = Some (Inr s)"
    by (auto simp: simulate_def Let_def split: if_splits)
  have "sim_inv P ?s1"
    using make_resources_empty [OF rs]
    by (simp add: sim_inv_def schedule_def inv_heap_def tokens_def heap_tokens_def ev_token_def
        inv_ev_def inv_q_def inv_proc_def inv_log_def inv_cnt_def warm_ok_def counted_def make_log_def)
  from env_run_inv [OF this run] show ?thesis .
qed

subsection \<open>The queue of a pool stays ordered\<close>

lemma set_queue_insert: "set (queue_insert x q) = insert x (set q)"
  by (induction q) auto

lemma rq_before_trans: "rq_before a b \<Longrightarrow> rq_before b c \<Longrightarrow> rq_before a c"
  by (auto simp: rq_before_def)

lemma rq_before_total: "rq_seq a \<noteq> rq_seq b \<Longrightarrow> \<not> rq_before a b \<Longrightarrow> rq_before b a"
  by (auto simp: rq_before_def)

lemma sorted_queue_insert:
  "sorted_wrt rq_before q \<Longrightarrow> \<forall>b\<in>set q. rq_seq b \<noteq> rq_seq x \<Longrightarrow>
   sorted_wrt rq_before (queue_insert x q)"
proof (induction q)
  case Nil
  then show ?case by simp
next
  case (Cons y ys)
  show ?case
  proof (cases "rq_before x y")
    case True
    with Cons.prems show ?thesis by (auto intro: rq_before_trans)
  next
    case False
    with Cons.prems have "rq_before y x" by (intro rq_before_total) auto
    with False Cons show ?thesis by (auto simp: set_queue_insert)
  qed
qed

lemma res_grant_ok: "res_ok q \<Longrightarrow> res_ok (fst (res_grant q))"
  by (auto simp: res_ok_def res_grant_def split: list.splits)

lemma res_grant_head:
  "res_ok q \<Longrightarrow> res_grant q = (q', Some a) \<Longrightarrow> \<forall>b\<in>set (put_queue q'). rq_before a b"
  by (auto simp: res_ok_def res_grant_def split: list.splits if_splits)

lemma res_enqueue_ok:
  assumes "res_ok q"
  shows "res_ok (q\<lparr>put_queue := queue_insert \<lparr>rq_priority = prio, rq_seq = next_seq q, rq_pid = pid\<rparr> (put_queue q),
                  next_seq := next_seq q + 1\<rparr>)"
proof -
  have "sorted_wrt rq_before (queue_insert \<lparr>rq_priority = prio, rq_seq = next_seq q, rq_pid = pid\<rparr> (put_queue q))"
    using assms by (intro sorted_queue_insert) (auto simp: res_ok_def)
  with assms show ?thesis by (auto simp: res_ok_def set_queue_insert)
qed

lemma res_apply_ok: "res_ok q \<Longrightarrow> res_ok (fst (res_apply x q))"
proof (cases x)
  case (Request prio pid)
  assume "res_ok q"
  from res_grant_ok [OF res_enqueue_ok [OF this]] Request show ?thesis
    by (simp add: res_request_def)
next
  case (Release pid)
  assume "res_ok q"
  then have "res_ok (q\<lparr>users := remove1 pid (users q)\<rparr>)" by (simp add: res_ok_def)
  from res_grant_ok [OF this] Release show ?thesis by (simp add: res_release_def)
qed

lemma res_apply_head:
  assumes "res_ok q" "res_apply x q = (q', Some a)"
  shows "\<forall>b\<in>set (put_queue q'). rq_before a b"
proof (cases x)
  case (Request prio pid)
  with assms(2) res_grant_head [OF res_enqueue_ok [OF assms(1)]] show ?thesis
    by (simp add: res_request_def)
next
  case (Release pid)
  from assms(1) have "res_ok (q\<lparr>users := remove1 pid (users q)\<rparr>)" by (simp add: res_ok_def)
  from res_grant_head [OF this] assms(2) Release show ?thesis by (simp add: res_release_def)
qed

lemma res_run_ok: "res_ok q \<Longrightarrow> res_ok (res_run xs q)"
  by (induction xs arbitrary: q) (simp_all add: res_apply_ok)

lemma new_resource_ok: "new_resource c = Inr q \<Longrightarrow> res_ok q"
  by (auto simp: new_resource_def res_ok_def split: if_splits)

lemma request_keeps_users:
  "users (fst (res_request prio pid q)) =
     users q @ (case snd (res_request prio pid q) of None \<Rightarrow> [] | Some x \<Rightarrow> [rq_pid x])"
  by (simp add: res_request_def res_grant_def split: list.splits)

subsection \<open>Concrete runs and auxiliary facts\<close>


lemma lab_short_run:
  "(case simulate (script_lib lab_script) 40 lab_short 1 [] of
      Some (Inr s) \<Rightarrow>
        log s = \<lparr>patients =
          [\<lparr>r_pid = 0, r_arrival = 0, r_finish = 22, r_priority = 1,
              r_test_type = Fast, r_wait_reg = 0, r_wait_sample = 0,
              r_wait_machine = 0, r_wait_verify = 0, r_system_time = 22\<rparr>],
          log_wait_reg = [0], log_wait_sample = [0], log_wait_machine = [0],
          log_wait_verify = [0], log_system_time = [22],
          counts = \<lparr>cnt_priority = 0, cnt_normal = 2, cnt_fast = 2, cnt_slow = 0\<rparr>\<rparr>
        \<and> arr_pid s = 2
        \<and> map_option pc (procs s 1) = Some PServMachine
    | _ \<Rightarrow> False)"
  by code_simp

lemma lab_warm_log_40:
  "run_simulation (script_lib lab_script) 40 lab_warm 1 [] =
     Some (Inr \<lparr>patients =
          [\<lparr>r_pid = 0, r_arrival = 0, r_finish = 22, r_priority = 1,
              r_test_type = Fast, r_wait_reg = 0, r_wait_sample = 0,
              r_wait_machine = 0, r_wait_verify = 0, r_system_time = 22\<rparr>,
           \<lparr>r_pid = 1, r_arrival = 10, r_finish = 36, r_priority = 1,
              r_test_type = Fast, r_wait_reg = 0, r_wait_sample = 0,
              r_wait_machine = 2, r_wait_verify = 0, r_system_time = 26\<rparr>],
          log_wait_reg = [0], log_wait_sample = [0], log_wait_machine = [2],
          log_wait_verify = [0], log_system_time = [26],
          counts = \<lparr>cnt_priority = 0, cnt_normal = 2, cnt_fast = 2, cnt_slow = 0\<rparr>\<rparr>)"
  by code_simp

lemma distinct_bounded_length:
  assumes "distinct (xs :: nat list)" "\<forall>x\<in>set xs. x < n"
  shows "length xs \<le> n"
proof -
  have "length xs = card (set xs)" using assms(1) by (simp add: distinct_card)
  also have "\<dots> \<le> card {..<n}" using assms(2) by (intro card_mono) auto
  finally show ?thesis by simp
qed

lemma env_run_mono: "env_run L P n s = Some r \<Longrightarrow> env_run L P (n + k) s = Some r"
proof (induction n arbitrary: s)
  case 0
  then show ?case by simp
next
  case (Suc n)
  show ?case
  proof (cases "heap s")
    case Nil
    with Suc.prems show ?thesis by simp
  next
    case (Cons e es)
    show ?thesis
    proof (cases "sim_time P \<le> ev_time e")
      case True
      with Suc.prems Cons show ?thesis by simp
    next
      case False
      show ?thesis
      proof (cases "step L P (ev_what e) (s\<lparr>now := ev_time e, heap := es\<rparr>)")
        case (Inl err)
        with Suc.prems Cons False show ?thesis by auto
      next
        case (Inr s1)
        with Suc.prems Cons False have "env_run L P n s1 = Some r" by simp
        from Suc.IH [OF this] Cons False Inr show ?thesis by simp
      qed
    qed
  qed
qed

lemma simulate_mono:
  "simulate L n P seed g = Some r \<Longrightarrow> simulate L (n + k) P seed g' = Some r"
  by (auto simp: simulate_def Let_def env_run_mono split: sum.splits if_splits)

lemma run_simulation_mono:
  "run_simulation L n P seed g = Some r \<Longrightarrow> run_simulation L (n + k) P seed g' = Some r"
  by (auto simp: run_simulation_def dest: simulate_mono [where k = k and g' = g'])

lemma make_resources_error:
  "c_reg P \<le> 0 \<or> c_phleb P \<le> 0 \<or> c_fast P \<le> 0 \<or> c_slow P \<le> 0 \<Longrightarrow>
   make_resources P = Inl ValueError"
  by (auto simp: make_resources_def new_resource_def)

lemma make_resources_ok:
  "0 < c_reg P \<Longrightarrow> 0 < c_phleb P \<Longrightarrow> 0 < c_fast P \<Longrightarrow> 0 < c_slow P \<Longrightarrow>
   \<exists>rs. make_resources P = Inr rs \<and> (rs Verify = None) = (\<not> (use_verify P \<and> 0 < c_verify P))"
  by (auto simp: make_resources_def new_resource_def Let_def)

lemma arrivals_zero_mean:
  "mean_interarrival P = 0 \<Longrightarrow> arrivals L P s = Inl ZeroDivisionError"
  by (simp add: arrivals_def sample_interarrival_def Let_def split: prod.splits)

lemma py_div_pos: "0 < b \<Longrightarrow> py_div a b = Inr (a / b)"
  by (simp add: py_div_def)

lemma stats_mean_nonneg:
  assumes "xs \<noteq> []" "\<forall>x\<in>set xs. 0 \<le> x"
  shows "0 \<le> sum_list xs / real (length xs)"
  using assms by (simp add: sum_list_nonneg)

lemma analyze_bottleneck_fin:
  assumes "0 \<le> a" "0 \<le> b" "0 \<le> c" "0 \<le> d"
    and "mean_wait_registrasi sm = Fin a" "mean_wait_sampel sm = Fin b" "mean_wait_mesin sm = Fin c"
    and "(if log_wait_verify lg \<noteq> [] then safe_mean (log_wait_verify lg) else Inr (Fin 0)) = Inr (Fin d)"
  shows "\<exists>r. analyze_bottleneck sm lg = Inr r \<and>
     all_stages r = [(Registrasi, Fin a), (Pengambilan_Sampel, Fin b), (Mesin_Tes, Fin c), (Verifikasi, Fin d)] \<and>
     (bottleneck r, wait_time r) \<in> set (all_stages r) \<and>
     wait_time r = Fin (Max {a, b, c, d}) \<and>
     severity r = Fin (if a + b + c + d = 0 then 0 else Max {a, b, c, d} / (a + b + c + d) * 100)"
proof -
  have best: "max_key (Registrasi, Fin a) [(Pengambilan_Sampel, Fin b), (Mesin_Tes, Fin c), (Verifikasi, Fin d)]
      \<in> {(Registrasi, Fin a), (Pengambilan_Sampel, Fin b), (Mesin_Tes, Fin c), (Verifikasi, Fin d)}
     \<and> snd (max_key (Registrasi, Fin a) [(Pengambilan_Sampel, Fin b), (Mesin_Tes, Fin c), (Verifikasi, Fin d)])
        = Fin (max a (max b (max c d)))"
    by (auto simp: pf_gt_def max_def)
  have tot: "foldl pf_add (Fin 0) [Fin a, Fin b, Fin c, Fin d] = Fin (a + b + c + d)"
    by (simp add: pf_add_def)
  have ge: "0 \<le> a + b + c + d" using assms(1-4) by simp
  show ?thesis
    using best tot ge assms(5-8)
    by (auto simp: analyze_bottleneck_def Let_def simp del: max_key.simps foldl.simps)
qed

section \<open>The claims\<close>

text \<open>
  C1. Two runs with the same configuration and the same seed give the same outcome,
  whatever state the global generator was in before each call (so also the state the
  first run left behind): \<open>run_simulation\<close> reseeds the generator first. The outcome is
  the log with its patient records in order, its counted lists and its counters, or the
  error raised. It does not depend on the fuel of the model either: two runs that both
  stop return the same.
\<close>

theorem same_seed_same_log:
  "run_simulation L fuel P seed g = run_simulation L fuel P seed g' \<and>
   (run_simulation L n P seed g = Some r \<and> run_simulation L m P seed g' = Some r' \<longrightarrow> r = r')"
proof (intro conjI impI)
  show "run_simulation L fuel P seed g = run_simulation L fuel P seed g'"
    by (simp add: run_simulation_def simulate_def)
next
  assume a: "run_simulation L n P seed g = Some r \<and> run_simulation L m P seed g' = Some r'"
  show "r = r'"
  proof (cases "n \<le> m")
    case True
    then obtain k where "m = n + k" by (auto simp: le_iff_add)
    with a run_simulation_mono [of L n P seed g r k g'] show ?thesis by simp
  next
    case False
    then obtain k where "n = m + k" by (metis le_iff_add nat_le_linear)
    with a run_simulation_mono [of L m P seed g' r' k g] show ?thesis by simp
  qed
qed

theorem same_seed_same_log_witness:
  "run_simulation (script_lib lab_script) 40 lab_warm 1 [] =
     run_simulation (script_lib lab_script) 40 lab_warm 1 [7, 8] \<and>
   run_simulation (script_lib lab_script) 40 lab_warm 1 [] =
     run_simulation (script_lib lab_script) 45 lab_warm 1 [7, 8] \<and>
   run_simulation (script_lib lab_script) 40 lab_warm 1 [] \<noteq> None"
proof -
  have a: "run_simulation (script_lib lab_script) 40 lab_warm 1 [] =
     run_simulation (script_lib lab_script) 40 lab_warm 1 [7, 8]"
    using same_seed_same_log [of "script_lib lab_script" 40 lab_warm 1 "[]" "[7, 8]"] by simp
  have "run_simulation (script_lib lab_script) (40 + 5) lab_warm 1 [7, 8] =
        run_simulation (script_lib lab_script) 40 lab_warm 1 []"
    unfolding lab_warm_log_40 by (rule run_simulation_mono [OF lab_warm_log_40])
  then have b: "run_simulation (script_lib lab_script) 40 lab_warm 1 [] =
     run_simulation (script_lib lab_script) 45 lab_warm 1 [7, 8]" by simp
  have c: "run_simulation (script_lib lab_script) 40 lab_warm 1 [] \<noteq> None"
    by (simp add: lab_warm_log_40)
  from a b c show ?thesis by blast
qed



text \<open>
  C3. On a pool reached from a new one by any sequence of requests and releases:
  whenever an operation grants a request, that request comes before every request
  still pending, in the order "higher priority class (smaller number) first, and within
  a class the smaller sequence number first"; sequence numbers follow submission order
  (every pending request has a number below the next one to be given out); and a request
  never removes a holder of a slot, whatever its priority: the holders after it are the
  holders before it, plus the request just granted, if any.
\<close>

theorem admission_order:
  assumes "new_resource c = Inr q0" and "q = res_run ops q0"
  shows "(\<forall>x q' a. res_apply x q = (q', Some a) \<longrightarrow> (\<forall>b\<in>set (put_queue q'). rq_before a b)) \<and>
         (\<forall>b\<in>set (put_queue q). rq_seq b < next_seq q) \<and>
         (\<forall>prio pid. users (fst (res_request prio pid q)) =
            users q @ (case snd (res_request prio pid q) of None \<Rightarrow> [] | Some x \<Rightarrow> [rq_pid x]))"
proof -
  have ok: "res_ok q" unfolding assms(2) by (rule res_run_ok [OF new_resource_ok [OF assms(1)]])
  then show ?thesis
    using res_apply_head [OF ok] request_keeps_users by (auto simp: res_ok_def)
qed

theorem admission_order_witness:
  "new_resource 1 = Inr \<lparr>capacity = 1, users = [], put_queue = [], next_seq = 0\<rparr> \<and>
   res_run [Request 1 10, Request 1 11, Request 0 12] \<lparr>capacity = 1, users = [], put_queue = [], next_seq = 0\<rparr>
     = \<lparr>capacity = 1, users = [10],
         put_queue = [\<lparr>rq_priority = 0, rq_seq = 2, rq_pid = 12\<rparr>, \<lparr>rq_priority = 1, rq_seq = 1, rq_pid = 11\<rparr>],
         next_seq = 3\<rparr> \<and>
   res_apply (Release 10)
     \<lparr>capacity = 1, users = [10],
      put_queue = [\<lparr>rq_priority = 0, rq_seq = 2, rq_pid = 12\<rparr>, \<lparr>rq_priority = 1, rq_seq = 1, rq_pid = 11\<rparr>],
      next_seq = 3\<rparr>
     = (\<lparr>capacity = 1, users = [12], put_queue = [\<lparr>rq_priority = 1, rq_seq = 1, rq_pid = 11\<rparr>], next_seq = 3\<rparr>,
        Some \<lparr>rq_priority = 0, rq_seq = 2, rq_pid = 12\<rparr>) \<and>
   rq_before \<lparr>rq_priority = 0, rq_seq = 2, rq_pid = 12\<rparr> \<lparr>rq_priority = 1, rq_seq = 1, rq_pid = 11\<rparr> \<and>
   users (fst (res_request 0 13
      \<lparr>capacity = 1, users = [10],
       put_queue = [\<lparr>rq_priority = 0, rq_seq = 2, rq_pid = 12\<rparr>, \<lparr>rq_priority = 1, rq_seq = 1, rq_pid = 11\<rparr>],
       next_seq = 3\<rparr>)) = [10]"
proof -
  let ?init = "\<lparr>capacity = 1, users = [], put_queue = [], next_seq = 0\<rparr>"
  let ?mid = "\<lparr>capacity = 1, users = [10],
         put_queue = [\<lparr>rq_priority = 0, rq_seq = 2, rq_pid = 12\<rparr>, \<lparr>rq_priority = 1, rq_seq = 1, rq_pid = 11\<rparr>],
         next_seq = 3\<rparr>"
  have n: "new_resource 1 = Inr ?init" by (simp add: new_resource_def)
  have r: "?mid = res_run [Request 1 10, Request 1 11, Request 0 12] ?init"
    by code_simp
  have a: "res_apply (Release 10) ?mid
     = (\<lparr>capacity = 1, users = [12], put_queue = [\<lparr>rq_priority = 1, rq_seq = 1, rq_pid = 11\<rparr>], next_seq = 3\<rparr>,
        Some \<lparr>rq_priority = 0, rq_seq = 2, rq_pid = 12\<rparr>)"
    by (simp add: res_release_def res_grant_def)
  from admission_order [OF n r] a
  have "rq_before \<lparr>rq_priority = 0, rq_seq = 2, rq_pid = 12\<rparr> \<lparr>rq_priority = 1, rq_seq = 1, rq_pid = 11\<rparr>"
    by fastforce
  moreover from admission_order [OF n r]
  have "users (fst (res_request 0 13 ?mid)) = [10]"
    by (simp add: res_request_def res_grant_def rq_before_def)
  ultimately show ?thesis using n r a by simp
qed



text \<open>
  C5. For a non-empty list \<open>xs\<close> and a percentage \<open>p\<close> in [0,100], \<open>percentile xs p\<close> is the
  linear interpolation between the order statistics of \<open>xs\<close> at the floor and the ceiling of
  the rank \<open>k = (len xs - 1) * p / 100\<close>; at 0 it is the minimum of \<open>xs\<close> and at 100 the
  maximum. (Floats are exact reals here.)
\<close>

theorem percentile_order_statistic:
  assumes "xs \<noteq> []" and "0 \<le> p" and "p \<le> 100"
  shows "percentile xs p =
           Inr (Fin (sort xs ! nat \<lfloor>real (length xs - 1) * (p / 100)\<rfloor>
                     + (real (length xs - 1) * (p / 100)
                          - real_of_int \<lfloor>real (length xs - 1) * (p / 100)\<rfloor>)
                       * (sort xs ! nat \<lceil>real (length xs - 1) * (p / 100)\<rceil>
                          - sort xs ! nat \<lfloor>real (length xs - 1) * (p / 100)\<rfloor>)))
         \<and> percentile xs 0 = Inr (Fin (Min (set xs)))
         \<and> percentile xs 100 = Inr (Fin (Max (set xs)))"
  using assms percentile_formula [of xs p] percentile_0 [of xs] percentile_100 [of xs]
  by blast

theorem percentile_order_statistic_witness:
  "percentile [3, 1, 2] 25 = Inr (Fin (3 / 2)) \<and> percentile [3, 1, 2] 0 = Inr (Fin 1)
   \<and> percentile [3, 1, 2] 100 = Inr (Fin 3)"
  using percentile_order_statistic [of "[3, 1, 2]" 25] by simp

text \<open>
  C6. Statistics over an empty counted set never raise: \<open>safe_mean []\<close> and
  \<open>percentile [] p\<close> are the defined value NaN, and \<open>summarize\<close> of a log whose counted lists
  are empty returns a summary (whose means and percentile are NaN).
\<close>

theorem empty_sample_is_nan:
  "safe_mean [] = Inr NaN \<and> percentile [] p = Inr NaN \<and>
   (log_wait_reg lg = [] \<and> log_wait_sample lg = [] \<and> log_wait_machine lg = []
      \<and> log_system_time lg = [] \<longrightarrow>
    summarize lg =
      Inr \<lparr>total_pasien = length (patients lg), pasien_dihitung = 0,
           mean_wait_registrasi = NaN, mean_wait_sampel = NaN, mean_wait_mesin = NaN,
           mean_total_time = NaN, p95_total_time = NaN, komposisi = counts lg\<rparr>)"
  by (simp add: summarize_def safe_mean_def percentile_def)

theorem empty_sample_is_nan_witness:
  "safe_mean [] = Inr NaN \<and> percentile [] 95 = Inr NaN \<and>
   summarize make_log =
     Inr \<lparr>total_pasien = 0, pasien_dihitung = 0,
          mean_wait_registrasi = NaN, mean_wait_sampel = NaN, mean_wait_mesin = NaN,
          mean_total_time = NaN, p95_total_time = NaN,
          komposisi = \<lparr>cnt_priority = 0, cnt_normal = 0, cnt_fast = 0, cnt_slow = 0\<rparr>\<rparr>"
  using empty_sample_is_nan [of 95 make_log] by (simp add: make_log_def)

text \<open>
  C7. As stated the claim fails: \<open>run_simulation\<close> validates nothing itself. A run with a
  priority probability of 3/2, one with the registration triple (5, 3, 2), and one with
  verification switched on and a verification capacity of 0 all return a log.
\<close>

theorem invalid_config_accepted_counterexample:
  "\<not> (0 \<le> p_priority bad_probability \<and> p_priority bad_probability \<le> 1) \<and>
   run_simulation (script_lib lab_script) 40 bad_probability 1 [] =
     Some (Inr \<lparr>patients =
          [\<lparr>r_pid = 0, r_arrival = 0, r_finish = 22, r_priority = 0,
              r_test_type = Fast, r_wait_reg = 0, r_wait_sample = 0,
              r_wait_machine = 0, r_wait_verify = 0, r_system_time = 22\<rparr>,
           \<lparr>r_pid = 1, r_arrival = 10, r_finish = 36, r_priority = 0,
              r_test_type = Fast, r_wait_reg = 0, r_wait_sample = 0,
              r_wait_machine = 2, r_wait_verify = 0, r_system_time = 26\<rparr>],
          log_wait_reg = [0, 0], log_wait_sample = [0, 0],
          log_wait_machine = [0, 2], log_wait_verify = [0, 0],
          log_system_time = [22, 26],
          counts = \<lparr>cnt_priority = 2, cnt_normal = 0, cnt_fast = 2, cnt_slow = 0\<rparr>\<rparr>) \<and>
   registration (service_time bad_triangle) = (5, 3, 2) \<and>
   run_simulation (script_lib lab_script) 40 bad_triangle 1 [] =
     Some (Inr \<lparr>patients =
          [\<lparr>r_pid = 0, r_arrival = 0, r_finish = 22, r_priority = 1,
              r_test_type = Fast, r_wait_reg = 0, r_wait_sample = 0,
              r_wait_machine = 0, r_wait_verify = 0, r_system_time = 22\<rparr>,
           \<lparr>r_pid = 1, r_arrival = 10, r_finish = 36, r_priority = 1,
              r_test_type = Fast, r_wait_reg = 0, r_wait_sample = 0,
              r_wait_machine = 2, r_wait_verify = 0, r_system_time = 26\<rparr>],
          log_wait_reg = [0, 0], log_wait_sample = [0, 0],
          log_wait_machine = [0, 2], log_wait_verify = [0, 0],
          log_system_time = [22, 26],
          counts = \<lparr>cnt_priority = 0, cnt_normal = 2, cnt_fast = 2, cnt_slow = 0\<rparr>\<rparr>) \<and>
   use_verify bad_verify \<and> c_verify bad_verify = 0 \<and>
   run_simulation (script_lib lab_script) 40 bad_verify 1 [] =
     Some (Inr \<lparr>patients =
          [\<lparr>r_pid = 0, r_arrival = 0, r_finish = 20, r_priority = 1,
              r_test_type = Fast, r_wait_reg = 0, r_wait_sample = 0,
              r_wait_machine = 0, r_wait_verify = 0, r_system_time = 20\<rparr>,
           \<lparr>r_pid = 1, r_arrival = 10, r_finish = 34, r_priority = 1,
              r_test_type = Fast, r_wait_reg = 0, r_wait_sample = 0,
              r_wait_machine = 2, r_wait_verify = 0, r_system_time = 24\<rparr>],
          log_wait_reg = [0, 0], log_wait_sample = [0, 0],
          log_wait_machine = [0, 2], log_wait_verify = [],
          log_system_time = [20, 24],
          counts = \<lparr>cnt_priority = 0, cnt_normal = 2, cnt_fast = 2, cnt_slow = 0\<rparr>\<rparr>)"
  by code_simp

text \<open>
  C7, amended. A non-positive capacity of the registration, sampling, fast-machine or
  slow-machine pool is refused with a \<open>ValueError\<close> when the pools are built, before the
  run starts. A mean inter-arrival time of 0 raises \<open>ZeroDivisionError\<close> at the first
  inter-arrival draw, at time 0. A non-positive verification capacity is no error: the
  verification pool is \<open>None\<close> and the stage is skipped.
\<close>

theorem config_errors_raised:
  "(c_reg P \<le> 0 \<or> c_phleb P \<le> 0 \<or> c_fast P \<le> 0 \<or> c_slow P \<le> 0 \<longrightarrow>
      run_simulation L fuel P seed g = Some (Inl ValueError)) \<and>
   (0 < c_reg P \<and> 0 < c_phleb P \<and> 0 < c_fast P \<and> 0 < c_slow P \<and> 0 < sim_time P \<and>
    mean_interarrival P = 0 \<and> 0 < fuel \<longrightarrow>
      run_simulation L fuel P seed g = Some (Inl ZeroDivisionError)) \<and>
   (0 < c_reg P \<and> 0 < c_phleb P \<and> 0 < c_fast P \<and> 0 < c_slow P \<and> c_verify P \<le> 0 \<longrightarrow>
      (\<exists>rs. make_resources P = Inr rs \<and> rs Verify = None))"
proof (intro conjI impI)
  assume "c_reg P \<le> 0 \<or> c_phleb P \<le> 0 \<or> c_fast P \<le> 0 \<or> c_slow P \<le> 0"
  from make_resources_error [OF this]
  show "run_simulation L fuel P seed g = Some (Inl ValueError)"
    by (simp add: run_simulation_def simulate_def)
next
  assume a: "0 < c_reg P \<and> 0 < c_phleb P \<and> 0 < c_fast P \<and> 0 < c_slow P \<and> 0 < sim_time P \<and>
    mean_interarrival P = 0 \<and> 0 < fuel"
  then obtain rs where rs: "make_resources P = Inr rs" using make_resources_ok [of P] by blast
  from a obtain n where n: "fuel = Suc n" by (cases fuel) auto
  from a have m: "mean_interarrival P = 0" and t: "\<not> sim_time P \<le> 0" by auto
  show "run_simulation L fuel P seed g = Some (Inl ZeroDivisionError)"
    using t by (simp add: run_simulation_def simulate_def rs n schedule_def step_def arrivals_zero_mean [OF m])
next
  assume "0 < c_reg P \<and> 0 < c_phleb P \<and> 0 < c_fast P \<and> 0 < c_slow P \<and> c_verify P \<le> 0"
  then show "\<exists>rs. make_resources P = Inr rs \<and> rs Verify = None"
    using make_resources_ok [of P] by auto
qed

theorem config_errors_raised_witness:
  "run_simulation (script_lib lab_script) 40 (lab_params\<lparr>c_reg := 0\<rparr>) 1 [] = Some (Inl ValueError) \<and>
   run_simulation (script_lib lab_script) 40 (lab_params\<lparr>mean_interarrival := 0\<rparr>) 1 []
     = Some (Inl ZeroDivisionError) \<and>
   (\<exists>rs. make_resources bad_verify = Inr rs \<and> rs Verify = None)"
  using config_errors_raised [of "lab_params\<lparr>c_reg := 0\<rparr>" "script_lib lab_script" 40 1 "[]"]
    config_errors_raised [of "lab_params\<lparr>mean_interarrival := 0\<rparr>" "script_lib lab_script" 40 1 "[]"]
    config_errors_raised [of bad_verify "script_lib lab_script" 40 1 "[]"]
  by (simp add: lab_params_def bad_verify_def)

text \<open>
  C8. As stated the claim fails: the estimate does not count the patients a pool has
  served. In the run of \<open>lab_short\<close>, registration has served two patients and the fast
  machine one, but the registration figure is computed from the one completed record
  (10 instead of 20) and the fast-machine figure from the two fast patients spawned
  (80 instead of 40).
\<close>

theorem utilization_served_counterexample:
  "(case simulate (script_lib lab_script) 40 lab_short 1 [] of
      Some (Inr s) \<Rightarrow>
        served_by Reg s = 2 \<and> length (patients (log s)) = 1 \<and>
        served_by MachineFast s = 1 \<and> cnt_fast (counts (log s)) = 2 \<and>
        calculate_utilization (log s) lab_short =
          Inr (Some \<lparr>util_registrasi = 10, util_sampel = 25 / 3, util_mesin_cepat = 80,
                     util_mesin_lama = 0, util_verifikasi = 20 / 3\<rparr>) \<and>
        min (real (served_by Reg s) * mode_of (registration (service_time lab_short))
               / (real_of_int (c_reg lab_short) * sim_time lab_short) * 100) 100 = 20 \<and>
        min (real (served_by MachineFast s) * mode_of (test_fast (service_time lab_short))
               / (real_of_int (c_fast lab_short) * sim_time lab_short) * 100) 100 = 40
    | _ \<Rightarrow> False)"
  by code_simp

text \<open>
  C8, amended. For positive capacities and horizon and non-negative modes,
  \<open>calculate_utilization\<close> returns the empty dictionary for a log without records, and
  otherwise, per pool, count \<open>\<times>\<close> mode / (capacity \<open>\<times>\<close> horizon) as a percentage capped
  at 100, where the count is the number of completed records for registration, sampling
  and verification and the spawn-time fast and slow counters for the two machine pools
  (verification is 0 when it is switched off); every value lies in [0, 100].
\<close>

theorem utilization_estimate:
  assumes "0 < c_reg P" "0 < c_phleb P" "0 < c_fast P" "0 < c_slow P"
    and "use_verify P \<longrightarrow> 0 < c_verify P" and "0 < sim_time P"
    and "0 \<le> mode_of (registration (service_time P))" "0 \<le> mode_of (sampling (service_time P))"
      "0 \<le> mode_of (test_fast (service_time P))" "0 \<le> mode_of (test_slow (service_time P))"
      "0 \<le> mode_of (verification (service_time P))"
  shows "(patients lg = [] \<longrightarrow> calculate_utilization lg P = Inr None) \<and>
    (patients lg \<noteq> [] \<longrightarrow>
      (\<exists>u. calculate_utilization lg P = Inr (Some u) \<and>
         util_registrasi u = min (real (length (patients lg)) * mode_of (registration (service_time P))
                                   / (real_of_int (c_reg P) * sim_time P) * 100) 100 \<and>
         util_sampel u = min (real (length (patients lg)) * mode_of (sampling (service_time P))
                                   / (real_of_int (c_phleb P) * sim_time P) * 100) 100 \<and>
         util_mesin_cepat u = min (real (cnt_fast (counts lg)) * mode_of (test_fast (service_time P))
                                   / (real_of_int (c_fast P) * sim_time P) * 100) 100 \<and>
         util_mesin_lama u = min (real (cnt_slow (counts lg)) * mode_of (test_slow (service_time P))
                                   / (real_of_int (c_slow P) * sim_time P) * 100) 100 \<and>
         util_verifikasi u =
           (if use_verify P
            then min (real (length (patients lg)) * mode_of (verification (service_time P))
                        / (real_of_int (c_verify P) * sim_time P) * 100) 100
            else 0) \<and>
         0 \<le> util_registrasi u \<and> util_registrasi u \<le> 100 \<and>
         0 \<le> util_sampel u \<and> util_sampel u \<le> 100 \<and>
         0 \<le> util_mesin_cepat u \<and> util_mesin_cepat u \<le> 100 \<and>
         0 \<le> util_mesin_lama u \<and> util_mesin_lama u \<le> 100 \<and>
         0 \<le> util_verifikasi u \<and> util_verifikasi u \<le> 100))"
proof -
  have d: "0 < real_of_int (c_reg P) * sim_time P" "0 < real_of_int (c_phleb P) * sim_time P"
    "0 < real_of_int (c_fast P) * sim_time P" "0 < real_of_int (c_slow P) * sim_time P"
    using assms by simp_all
  have dv: "0 < real_of_int (c_verify P) * sim_time P" if "use_verify P"
    using assms that by simp
  have nn: "0 \<le> real n * m / b * 100" if "0 \<le> m" "0 < b" for n :: nat and m b :: real
    using that by simp
  show ?thesis
  proof (cases "use_verify P")
    case True
    show ?thesis
      using True assms(7-11) d dv [OF True]
      by (simp add: calculate_utilization_def Let_def py_div_pos nn)
  next
    case False
    show ?thesis
      using False assms(7-11) d
      by (simp add: calculate_utilization_def Let_def py_div_pos nn)
  qed
qed

theorem utilization_estimate_witness:
  "calculate_utilization short_log lab_short =
     Inr (Some \<lparr>util_registrasi = 10, util_sampel = 25 / 3, util_mesin_cepat = 80,
                util_mesin_lama = 0, util_verifikasi = 20 / 3\<rparr>) \<and>
   calculate_utilization make_log lab_short = Inr None"
proof -
  have v: "0 < c_reg lab_short" "0 < c_phleb lab_short" "0 < c_fast lab_short" "0 < c_slow lab_short"
    "use_verify lab_short \<longrightarrow> 0 < c_verify lab_short" "0 < sim_time lab_short"
    "0 \<le> mode_of (registration (service_time lab_short))"
    "0 \<le> mode_of (sampling (service_time lab_short))"
    "0 \<le> mode_of (test_fast (service_time lab_short))"
    "0 \<le> mode_of (test_slow (service_time lab_short))"
    "0 \<le> mode_of (verification (service_time lab_short))"
    by (simp_all add: lab_short_def lab_params_def lab_service_time_def mode_of_def)
  from utilization_estimate [OF v, of short_log]
  obtain u where u: "calculate_utilization short_log lab_short = Inr (Some u)"
    "util_registrasi u = 10" "util_sampel u = 25 / 3" "util_mesin_cepat u = 80"
    "util_mesin_lama u = 0" "util_verifikasi u = 20 / 3"
    by (auto simp: short_log_def lab_short_def lab_params_def lab_service_time_def mode_of_def)
  then have "u = \<lparr>util_registrasi = 10, util_sampel = 25 / 3, util_mesin_cepat = 80,
                util_mesin_lama = 0, util_verifikasi = 20 / 3\<rparr>" by simp
  with u(1) utilization_estimate [OF v, of make_log] show ?thesis by (simp add: make_log_def)
qed

text \<open>
  C9. For a summary of a log whose counted wait lists are non-empty and hold non-negative
  waits (as every log of a run does once a patient is counted), \<open>analyze_bottleneck\<close>
  reports a stage whose mean wait is the maximum of the four stage means, with
  verification contributing 0 when its list is empty, and as severity that maximum's
  share of the sum of the four means in percent, or 0 when the sum is 0.
\<close>

theorem bottleneck_max_mean_wait:
  assumes "summarize lg = Inr sm"
    and "log_wait_reg lg \<noteq> []" "log_wait_sample lg \<noteq> []" "log_wait_machine lg \<noteq> []"
    and "\<forall>x\<in>set (log_wait_reg lg) \<union> set (log_wait_sample lg) \<union> set (log_wait_machine lg)
            \<union> set (log_wait_verify lg). 0 \<le> x"
  shows "\<exists>r m_reg m_sample m_machine m_verify.
     analyze_bottleneck sm lg = Inr r \<and>
     m_reg = sum_list (log_wait_reg lg) / real (length (log_wait_reg lg)) \<and>
     m_sample = sum_list (log_wait_sample lg) / real (length (log_wait_sample lg)) \<and>
     m_machine = sum_list (log_wait_machine lg) / real (length (log_wait_machine lg)) \<and>
     m_verify = (if log_wait_verify lg = [] then 0
                 else sum_list (log_wait_verify lg) / real (length (log_wait_verify lg))) \<and>
     all_stages r = [(Registrasi, Fin m_reg), (Pengambilan_Sampel, Fin m_sample),
                     (Mesin_Tes, Fin m_machine), (Verifikasi, Fin m_verify)] \<and>
     (bottleneck r, wait_time r) \<in> set (all_stages r) \<and>
     wait_time r = Fin (Max {m_reg, m_sample, m_machine, m_verify}) \<and>
     severity r = Fin (if m_reg + m_sample + m_machine + m_verify = 0 then 0
                       else Max {m_reg, m_sample, m_machine, m_verify}
                            / (m_reg + m_sample + m_machine + m_verify) * 100)"
proof -
  let ?a = "sum_list (log_wait_reg lg) / real (length (log_wait_reg lg))"
  let ?b = "sum_list (log_wait_sample lg) / real (length (log_wait_sample lg))"
  let ?c = "sum_list (log_wait_machine lg) / real (length (log_wait_machine lg))"
  let ?d = "(if log_wait_verify lg = [] then 0
                 else sum_list (log_wait_verify lg) / real (length (log_wait_verify lg)))"
  have nn: "0 \<le> ?a" "0 \<le> ?b" "0 \<le> ?c" "0 \<le> ?d"
    using assms(2-5) by (auto intro!: stats_mean_nonneg)
  from assms(1-4) have sm: "mean_wait_registrasi sm = Fin ?a" "mean_wait_sampel sm = Fin ?b"
    "mean_wait_mesin sm = Fin ?c"
    by (auto simp: summarize_def safe_mean_def stats_mean_def split: sum.splits if_splits)
  have v: "(if log_wait_verify lg \<noteq> [] then safe_mean (log_wait_verify lg) else Inr (Fin 0)) = Inr (Fin ?d)"
    by (simp add: safe_mean_def stats_mean_def)
  from analyze_bottleneck_fin [OF nn sm v] show ?thesis by blast
qed

theorem bottleneck_max_mean_wait_witness:
  "\<exists>sm r. summarize sample_log = Inr sm \<and> analyze_bottleneck sm sample_log = Inr r \<and>
     bottleneck r = Mesin_Tes \<and> wait_time r = Fin 4 \<and> severity r = Fin (200 / 3) \<and>
     all_stages r = [(Registrasi, Fin 2), (Pengambilan_Sampel, Fin 0), (Mesin_Tes, Fin 4), (Verifikasi, Fin 0)]"
proof -
  have "(case summarize sample_log of Inr sm \<Rightarrow> True | Inl e \<Rightarrow> False)" by code_simp
  then obtain sm where sm: "summarize sample_log = Inr sm" by (auto split: sum.splits)
  have h: "log_wait_reg sample_log \<noteq> []" "log_wait_sample sample_log \<noteq> []"
    "log_wait_machine sample_log \<noteq> []"
    "\<forall>x\<in>set (log_wait_reg sample_log) \<union> set (log_wait_sample sample_log)
        \<union> set (log_wait_machine sample_log) \<union> set (log_wait_verify sample_log). 0 \<le> x"
    by (simp_all add: sample_log_def make_log_def)
  from bottleneck_max_mean_wait [OF sm h]
  obtain r where r: "analyze_bottleneck sm sample_log = Inr r"
    "all_stages r = [(Registrasi, Fin 2), (Pengambilan_Sampel, Fin 0), (Mesin_Tes, Fin 4), (Verifikasi, Fin 0)]"
    "(bottleneck r, wait_time r) \<in> set (all_stages r)"
    "wait_time r = Fin 4" "severity r = Fin (200 / 3)"
    by (auto simp: sample_log_def make_log_def)
  from r(2,3,4) have "bottleneck r = Mesin_Tes" by auto
  with sm r show ?thesis by blast
qed

text \<open>
  C10. The composition counters are advanced by the arrival generator when it spawns a
  patient: after a run, priority + normal and fast + slow both equal the number of
  patients spawned (the generator's \<open>pid\<close>), and the log holds at most that many
  records. Patients that have not finished by the horizon are in the counters and not
  in the log.
\<close>

theorem counters_count_spawned:
  assumes "simulate L fuel P seed g = Some (Inr s)"
  shows "run_simulation L fuel P seed g = Some (Inr (log s)) \<and>
         cnt_priority (counts (log s)) + cnt_normal (counts (log s)) = arr_pid s \<and>
         cnt_fast (counts (log s)) + cnt_slow (counts (log s)) = arr_pid s \<and>
         length (patients (log s)) \<le> arr_pid s"
proof -
  have rs: "run_simulation L fuel P seed g = Some (Inr (log s))"
    using assms by (simp add: run_simulation_def)
  note inv = simulate_inv [OF assms]
  then have c: "inv_cnt (arr_pid s) (log s)" and l: "inv_log (res s Verify \<noteq> None) (procs s) (log s)"
    and p: "inv_proc (now s) (arr_pid s) (procs s)"
    by (simp_all add: sim_inv_def)
  have "\<forall>x\<in>set (map r_pid (patients (log s))). x < arr_pid s"
    using l p by (fastforce simp: inv_log_def inv_proc_def)
  moreover have "distinct (map r_pid (patients (log s)))" using l by (simp add: inv_log_def)
  ultimately have "length (map r_pid (patients (log s))) \<le> arr_pid s"
    by (intro distinct_bounded_length) auto
  with c rs show ?thesis by (simp add: inv_cnt_def)
qed

theorem counters_count_spawned_witness:
  "\<exists>s. simulate (script_lib lab_script) 40 lab_short 1 [] = Some (Inr s) \<and>
     cnt_priority (counts (log s)) + cnt_normal (counts (log s)) = 2 \<and>
     cnt_fast (counts (log s)) + cnt_slow (counts (log s)) = 2 \<and>
     arr_pid s = 2 \<and> length (patients (log s)) = 1"
proof -
  from lab_short_run obtain s where s: "simulate (script_lib lab_script) 40 lab_short 1 [] = Some (Inr s)"
    and f: "arr_pid s = 2" "length (patients (log s)) = 1"
    by (auto split: option.splits sum.splits)
  from counters_count_spawned [OF s] f s show ?thesis by (intro exI [of _ s]) simp
qed

end
